theory Spec2Isabelle
  imports Complex_Main "HOL-Library.Product_Lexorder" "HOL-Library.Multiset"
begin

chapter \<open>Model\<close>

section \<open>Common conventions\<close>

text \<open>
  The development embeds the parts of \<^verbatim>\<open>src/src/Place_List.cc\<close> that build the place
  registry, partition group quarters, compute staff targets, select hospitals and schedule
  shelter and evacuation.

  C++ \<^verbatim>\<open>int\<close> values are \<open>int\<close> (no run of the simulation gets near the 32-bit
  bounds: they are ids, day numbers and head counts), C++ \<^verbatim>\<open>double\<close> values are \<open>real\<close>
  (exact arithmetic in place of IEEE rounding), a null pointer is \<open>None\<close>, and every way
  the C++ leaves its normal path is a value of \<open>error\<close>.
\<close>

datatype error =
    NullDereference      \<comment> \<open>a member call through a null pointer\<close>
  | OutOfRange           \<comment> \<open>an index outside a vector, or \<^verbatim>\<open>std::map::at\<close> on a missing key\<close>
  | AssertionFailed      \<comment> \<open>a failed \<^verbatim>\<open>assert\<close>\<close>
  | Abort                \<comment> \<open>\<^verbatim>\<open>Utils::fred_abort\<close>\<close>

text \<open>\<^verbatim>\<open>std::map::insert\<close> keeps the old entry when the key is already there.\<close>

definition map_insert :: "('k \<rightharpoonup> 'v) \<Rightarrow> 'k \<Rightarrow> 'v \<Rightarrow> ('k \<rightharpoonup> 'v)" where
  "map_insert m k v = (case m k of Some _ \<Rightarrow> m | None \<Rightarrow> m(k \<mapsto> v))"

text \<open>\<^verbatim>\<open>v[i]\<close> on a \<^verbatim>\<open>std::vector\<close>: outside the vector the behaviour is undefined.\<close>

definition vector_at :: "'a list \<Rightarrow> int \<Rightarrow> error + 'a" where
  "vector_at v i = (if 0 \<le> i \<and> nat i < length v then Inr (v ! nat i) else Inl OutOfRange)"

text \<open>
  \<^verbatim>\<open>Random::draw_random()\<close> and \<^verbatim>\<open>Random::draw_normal(mean, std)\<close> are not among the
  sources. The generator is the sequence of values its calls return, in call order, and a
  cursor into it: a call reads the value at the cursor and advances the cursor by one. What
  \<^verbatim>\<open>draw_normal\<close> returns is left open (any real), so its arguments do not appear.
\<close>

type_synonym draws = "nat \<Rightarrow> real"

text \<open>
  Conversion of a \<^verbatim>\<open>double\<close> to an \<^verbatim>\<open>int\<close> (an initialisation
  \<^verbatim>\<open>int n = 0.5 + x\<close> or a compound assignment \<^verbatim>\<open>n += x\<close>) drops the fraction,
  rounding towards zero.
\<close>

definition double_to_int :: "real \<Rightarrow> int" where
  "double_to_int x = (if 0 \<le> x then \<lfloor>x\<rfloor> else \<lceil>x\<rceil>)"



section \<open>The place registry\<close>

text \<open>The seven classes \<^verbatim>\<open>add_place\<close> constructs, one per type tag.\<close>

datatype place_variant =
  Household | Workplace | Office | Neighborhood | School | Classroom | Hospital

record place =
  place_id :: int
  place_label :: string
  place_type :: char
  place_subtype :: char
  variant :: place_variant
  longitude :: real
  latitude :: real
  census_tract_fips :: int

text \<open>
  The members of \<^verbatim>\<open>Place_List\<close> that \<^verbatim>\<open>add_place\<close> and
  \<^verbatim>\<open>get_place_from_label\<close> touch. The vectors hold pointers to the one object per place;
  no attribute below changes after creation, so the model stores the object itself.
\<close>

record place_list =
  place_label_map :: "string \<rightharpoonup> int"
  places :: "place list"
  next_place_id :: int
  households :: "place list"
  neighborhoods :: "place list"
  schools :: "place list"
  workplaces :: "place list"
  hospitals :: "place list"

text \<open>
  \<^verbatim>\<open>Place* Place_List::get_place_from_label(const char* s) const\<close>: the sentinel
  \<^verbatim>\<open>"-1"\<close> and an unknown label give null; a known label gives
  \<^verbatim>\<open>places[place_label_map[s]]\<close>, the vector indexed by the id.
\<close>

definition get_place_from_label :: "place_list \<Rightarrow> string \<Rightarrow> error + place option" where
  "get_place_from_label pl s =
     (if s = ''-1'' then Inr None
      else case place_label_map pl s of
        Some i \<Rightarrow>
          (if 0 \<le> i \<and> nat i < length (places pl) then Inr (Some (places pl ! nat i))
           else Inl OutOfRange)
      | None \<Rightarrow> Inr None)"

text \<open>
  Modelled from the spec: \<^verbatim>\<open>get_new_place_id\<close> is declared in \<^verbatim>\<open>Place_List.h\<close>, which is
  not among the sources. The spec has ids "unique, monotonically assigned, never reused" and
  \<^verbatim>\<open>add_place\<close> "assign the next id": the call returns the counter and advances it.
\<close>

definition get_new_place_id :: "place_list \<Rightarrow> int \<times> place_list" where
  "get_new_place_id pl = (next_place_id pl, pl\<lparr>next_place_id := next_place_id pl + 1\<rparr>)"

text \<open>The \<^verbatim>\<open>switch(type)\<close> of \<^verbatim>\<open>add_place\<close>: no \<^verbatim>\<open>default\<close> branch, so any other tag
  leaves \<^verbatim>\<open>place\<close> null.\<close>

definition construct :: "char \<Rightarrow> place_variant option" where
  "construct ty =
     (if ty = CHR ''H'' then Some Household
      else if ty = CHR ''W'' then Some Workplace
      else if ty = CHR ''O'' then Some Office
      else if ty = CHR ''N'' then Some Neighborhood
      else if ty = CHR ''S'' then Some School
      else if ty = CHR ''C'' then Some Classroom
      else if ty = CHR ''M'' then Some Hospital
      else None)"

text \<open>
  Modelled from the spec: the virtual predicates \<^verbatim>\<open>is_household()\<close> ... \<^verbatim>\<open>is_hospital()\<close>
  belong to the place classes, which are not among the sources; the spec has \<^verbatim>\<open>add_place\<close>
  "append to the type-specific collection", so each predicate holds of its own class only.
\<close>

definition is_household :: "'a place_scheme \<Rightarrow> bool" where
  "is_household p = (variant p = Household)"

definition is_neighborhood :: "'a place_scheme \<Rightarrow> bool" where
  "is_neighborhood p = (variant p = Neighborhood)"

definition is_school :: "'a place_scheme \<Rightarrow> bool" where
  "is_school p = (variant p = School)"

definition is_workplace :: "'a place_scheme \<Rightarrow> bool" where
  "is_workplace p = (variant p = Workplace)"

definition is_hospital :: "'a place_scheme \<Rightarrow> bool" where
  "is_hospital p = (variant p = Hospital)"

text \<open>
  \<^verbatim>\<open>Place* Place_List::add_place(char* label, char type, char subtype, fred::geo lon,
  fred::geo lat, long int census_tract_fips)\<close>. A registered label returns what
  \<^verbatim>\<open>get_place_from_label\<close> returns and changes nothing. Otherwise the id is drawn first,
  then \<^verbatim>\<open>place->set_id(id)\<close> dereferences \<^verbatim>\<open>place\<close>: null when the tag was not one of
  the seven.
\<close>

definition add_place ::
  "place_list \<Rightarrow> string \<Rightarrow> char \<Rightarrow> char \<Rightarrow> real \<Rightarrow> real \<Rightarrow> int
     \<Rightarrow> error + (place option \<times> place_list)" where
  "add_place pl label ty subtype lon lat tract =
     (case place_label_map pl label of
        Some _ \<Rightarrow>
          (case get_place_from_label pl label of
             Inl e \<Rightarrow> Inl e
           | Inr r \<Rightarrow> Inr (r, pl))
      | None \<Rightarrow>
          (let (new_id, pl1) = get_new_place_id pl in
           case construct ty of
             None \<Rightarrow> Inl NullDereference
           | Some v \<Rightarrow>
               (let place = \<lparr>place_id = new_id, place_label = label, place_type = ty,
                              place_subtype = subtype, variant = v, longitude = lon,
                              latitude = lat, census_tract_fips = tract\<rparr>;
                    pl2 = pl1\<lparr>place_label_map := map_insert (place_label_map pl1) label new_id,
                              places := places pl1 @ [place]\<rparr>;
                    pl3 = (if is_household place
                           then pl2\<lparr>households := households pl2 @ [place]\<rparr> else pl2);
                    pl4 = (if is_neighborhood place
                           then pl3\<lparr>neighborhoods := neighborhoods pl3 @ [place]\<rparr> else pl3);
                    pl5 = (if is_school place
                           then pl4\<lparr>schools := schools pl4 @ [place]\<rparr> else pl4);
                    pl6 = (if is_workplace place
                           then pl5\<lparr>workplaces := workplaces pl5 @ [place]\<rparr> else pl5);
                    pl7 = (if is_hospital place
                           then pl6\<lparr>hospitals := hospitals pl6 @ [place]\<rparr> else pl6)
                in Inr (Some place, pl7))))"

text \<open>One call of \<^verbatim>\<open>add_place\<close>, as the readers of the input files make it.\<close>

record add_request =
  req_label :: string
  req_type :: char
  req_subtype :: char
  req_lon :: real
  req_lat :: real
  req_tract :: int

definition add_request_place :: "place_list \<Rightarrow> add_request \<Rightarrow> error + (place option \<times> place_list)" where
  "add_request_place pl r =
     add_place pl (req_label r) (req_type r) (req_subtype r) (req_lon r) (req_lat r) (req_tract r)"

text \<open>A sequence of calls; the first crash ends the run.\<close>

fun add_places :: "place_list \<Rightarrow> add_request list \<Rightarrow> error + place_list" where
  "add_places pl [] = Inr pl"
| "add_places pl (r # rs) =
     (case add_request_place pl r of
        Inl e \<Rightarrow> Inl e
      | Inr (_, pl') \<Rightarrow> add_places pl' rs)"

text \<open>The registry before the first call: nothing registered, the id counter at 0.\<close>

definition empty_place_list :: place_list where
  "empty_place_list =
     \<lparr>place_label_map = Map.empty, places = [], next_place_id = 0, households = [],
      neighborhoods = [], schools = [], workplaces = [], hospitals = []\<rparr>"

text \<open>
  The invariant of the registry: the id counter is the number of places, the place at
  index \<open>i\<close> has id \<open>i\<close> and its label is mapped to \<open>i\<close>, and the label map holds nothing
  else.
\<close>

definition registry_ok :: "place_list \<Rightarrow> bool" where
  "registry_ok pl =
     (next_place_id pl = int (length (places pl)) \<and>
      (\<forall>i < length (places pl).
          place_id (places pl ! i) = int i \<and>
          place_label_map pl (place_label (places pl ! i)) = Some (int i)) \<and>
      (\<forall>l i. place_label_map pl l = Some i \<longrightarrow>
          0 \<le> i \<and> nat i < length (places pl) \<and> place_label (places pl ! nat i) = l))"


section \<open>Households\<close>

text \<open>
  The members of \<^verbatim>\<open>Household\<close> that the partitioner and the schedulers read and write.
  A \<^verbatim>\<open>Person*\<close> is the person's number. The shelter days are \<open>None\<close> until a scheduler
  sets them.
\<close>

record household =
  hh_id :: int
  hh_label :: string
  enrollees :: "nat list"
  is_group_quarters :: bool
  group_quarters_units :: int
  household_income :: int
  shelter :: bool
  shelter_start_day :: "int option"
  shelter_end_day :: "int option"

text \<open>
  Modelled from the spec: \<^verbatim>\<open>get_household(i)\<close> is declared in \<^verbatim>\<open>Place_List.h\<close>, which is
  not among the sources. It is the accessor of the household vector by position; outside
  the vector it yields no household, and the caller's member call on the result fails.
\<close>

definition get_household :: "household list \<Rightarrow> int \<Rightarrow> household option" where
  "get_household hs i = (if 0 \<le> i \<and> nat i < length hs then Some (hs ! nat i) else None)"


section \<open>Group-quarters partitioner\<close>

text \<open>
  The household vector with the back-reference of every person: \<open>person_household c x\<close> is
  the position of the household that person \<open>x\<close> points to.
\<close>

record census =
  household_vector :: "household list"
  person_household :: "nat \<Rightarrow> nat"

text \<open>
  Modelled from the spec: \<^verbatim>\<open>Person::change_household\<close> is not among the sources. The spec has
  every transfer update "the occupant's owning-household back-reference atomically with
  removal from the source list and insertion into the destination list".
\<close>

definition change_household :: "nat \<Rightarrow> nat \<Rightarrow> census \<Rightarrow> census" where
  "change_household person new_house c =
     (let old_house = person_household c person;
          hs = household_vector c;
          hs1 = hs[old_house := (hs ! old_house)\<lparr>enrollees := remove1 person (enrollees (hs ! old_house))\<rparr>];
          hs2 = hs1[new_house := (hs1 ! new_house)\<lparr>enrollees := enrollees (hs1 ! new_house) @ [person]\<rparr>]
      in c\<lparr>household_vector := hs2, person_household := (person_household c)(person := new_house)\<rparr>)"

text \<open>
  The inner loops \<^verbatim>\<open>for(int j = 0; j < count; ++j) { Person* person =
  housemates[next_person++]; person->change_household(new_house); }\<close>, by the number of
  rounds left. \<open>new_house\<close> is what \<^verbatim>\<open>get_household(p++)\<close> returned: a position, or null.
\<close>

fun move_housemates ::
  "nat list \<Rightarrow> nat \<Rightarrow> nat \<Rightarrow> nat option \<Rightarrow> census \<Rightarrow> error + (nat \<times> census)" where
  "move_housemates housemates 0 next_person new_house c = Inr (next_person, c)"
| "move_housemates housemates (Suc n) next_person new_house c =
     (case vector_at housemates (int next_person) of
        Inl e \<Rightarrow> Inl e
      | Inr person \<Rightarrow>
          (case new_house of
             None \<Rightarrow> Inl NullDereference
           | Some nh \<Rightarrow>
               move_housemates housemates n (next_person + 1) new_house
                 (change_household person nh c)))"

text \<open>
  The two outer loops \<^verbatim>\<open>for(int i = 1; i < smaller_units; ++i)\<close> and
  \<^verbatim>\<open>for(int i = 0; i < larger_units; ++i)\<close>, by the number of rounds left: each round takes
  the next household of the vector and moves \<open>per_unit\<close> housemates into it.
\<close>

fun fill_units ::
  "nat list \<Rightarrow> nat \<Rightarrow> nat \<Rightarrow> nat \<Rightarrow> nat \<Rightarrow> census \<Rightarrow> error + (nat \<times> nat \<times> census)" where
  "fill_units housemates 0 per_unit p next_person c = Inr (p, next_person, c)"
| "fill_units housemates (Suc n) per_unit p next_person c =
     (let new_house =
            (case get_household (household_vector c) (int p) of
               None \<Rightarrow> None | Some _ \<Rightarrow> Some p)
      in case move_housemates housemates per_unit next_person new_house c of
           Inl e \<Rightarrow> Inl e
         | Inr (next_person', c') \<Rightarrow> fill_units housemates n per_unit (p + 1) next_person' c')"

text \<open>
  The body of the \<^verbatim>\<open>while\<close> loop of \<^verbatim>\<open>setup_group_quarters\<close> for a group-quarters
  \<open>house\<close>; \<open>p\<close> is already past it. The result is the new \<open>p\<close>, \<^verbatim>\<open>units_filled\<close> and the
  households.
\<close>

definition split_group_quarters ::
  "census \<Rightarrow> nat \<Rightarrow> household \<Rightarrow> error + (nat \<times> int \<times> census)" where
  "split_group_quarters c p house =
     (let gq_size = int (length (enrollees house));
          gq_units = group_quarters_units house
      in if gq_units > 1 then
           (let housemates = enrollees house;
                min_per_unit = gq_size div gq_units;
                larger_units = gq_size - min_per_unit * gq_units;
                smaller_units = gq_units - larger_units
            in case fill_units housemates (nat (smaller_units - 1)) (nat min_per_unit) p
                      (nat min_per_unit) c of
                 Inl e \<Rightarrow> Inl e
               | Inr (p1, next_person, c1) \<Rightarrow>
                   (case fill_units housemates (nat larger_units) (nat (min_per_unit + 1)) p1
                           next_person c1 of
                      Inl e \<Rightarrow> Inl e
                    | Inr (p2, _, c2) \<Rightarrow>
                        Inr (p2, 1 + int (nat (smaller_units - 1)) + int (nat larger_units), c2)))
         else Inr (p, 1, c))"

text \<open>The loops advance \<open>p\<close> by one per unit, which bounds the \<^verbatim>\<open>while\<close> loop below.\<close>

lemma fill_units_advances:
  "fill_units housemates n per_unit p next_person c = Inr (p', next_person', c') \<Longrightarrow> p' = p + n"
  by (induction n arbitrary: p next_person c)
     (fastforce simp: Let_def split: sum.splits prod.splits)+

lemma split_group_quarters_advances:
  "split_group_quarters c p house = Inr (p', units_filled, c') \<Longrightarrow> p \<le> p'"
  by (auto simp: split_group_quarters_def Let_def split: if_splits sum.splits prod.splits
      dest!: fill_units_advances)

text \<open>
  \<^verbatim>\<open>void Place_List::setup_group_quarters()\<close>: the \<^verbatim>\<open>while(p < num_households)\<close> loop. The
  result is the final \<^verbatim>\<open>units\<close> and the households.
\<close>

function setup_group_quarters_loop ::
  "nat \<Rightarrow> nat \<Rightarrow> int \<Rightarrow> census \<Rightarrow> error + (int \<times> census)" where
  "setup_group_quarters_loop num_households p units c =
     (if p < num_households then
        (case get_household (household_vector c) (int p) of
           None \<Rightarrow> Inl NullDereference
         | Some house \<Rightarrow>
             if is_group_quarters house then
               (case split_group_quarters c (p + 1) house of
                  Inl e \<Rightarrow> Inl e
                | Inr (p', units_filled, c') \<Rightarrow>
                    setup_group_quarters_loop num_households p' (units + units_filled) c')
             else setup_group_quarters_loop num_households (p + 1) units c)
      else Inr (units, c))"
  by pat_completeness auto
termination
  by (relation "measure (\<lambda>(num_households, p, units, c). num_households - p)")
     (auto dest: split_group_quarters_advances)

declare setup_group_quarters_loop.simps [simp del]

definition setup_group_quarters :: "census \<Rightarrow> error + (int \<times> census)" where
  "setup_group_quarters c = setup_group_quarters_loop (length (household_vector c)) 0 0 c"

text \<open>
  What the spec asks of the partition of the occupants \<open>xs\<close> into \<open>units\<close> units, in its
  own words: the first \<open>min_per_unit\<close> stay, the next \<open>smaller_units - 1\<close> units take
  \<open>min_per_unit\<close> each, the next \<open>larger_units\<close> units take \<open>min_per_unit + 1\<close> each.
\<close>

fun chunks :: "nat \<Rightarrow> nat \<Rightarrow> 'a list \<Rightarrow> 'a list list" where
  "chunks 0 per_unit xs = []"
| "chunks (Suc n) per_unit xs = take per_unit xs # chunks n per_unit (drop per_unit xs)"

definition spec_partition :: "nat \<Rightarrow> 'a list \<Rightarrow> 'a list list" where
  "spec_partition units xs =
     (let min_per_unit = length xs div units;
          larger_units = length xs - min_per_unit * units;
          smaller_units = units - larger_units
      in take min_per_unit xs #
         chunks (smaller_units - 1) min_per_unit (drop min_per_unit xs) @
         chunks larger_units (min_per_unit + 1) (drop (smaller_units * min_per_unit) xs))"


text \<open>
  Two states of a household that differ at most in the list of enrollees: the partitioner
  changes nothing else of a household.
\<close>

definition only_enrollees_differ :: "household \<Rightarrow> household \<Rightarrow> bool" where
  "only_enrollees_differ h h' = (h\<lparr>enrollees := []\<rparr> = h'\<lparr>enrollees := []\<rparr>)"


section \<open>Shelter scheduler\<close>

record shelter_params =
  Shelter_duration_mean :: int
  Shelter_duration_std :: int
  Shelter_delay_mean :: int
  Shelter_delay_std :: int
  Pct_households_sheltering :: real
  High_income_households_sheltering :: bool
  Early_shelter_rate :: real
  Shelter_decay_rate :: real

text \<open>
  \<^verbatim>\<open>while(shelter_start_day > 0 && r < Place_List::Early_shelter_rate) {
  shelter_start_day--; r = Random::draw_random(); }\<close>
\<close>

function early_shelter_loop :: "shelter_params \<Rightarrow> draws \<Rightarrow> int \<Rightarrow> real \<Rightarrow> nat \<Rightarrow> int \<times> nat" where
  "early_shelter_loop P d start_day r cursor =
     (if start_day > 0 \<and> r < Early_shelter_rate P
      then early_shelter_loop P d (start_day - 1) (d cursor) (cursor + 1)
      else (start_day, cursor))"
  by pat_completeness auto
termination
  by (relation "measure (\<lambda>(P, d, start_day, r, cursor). nat start_day)") auto

declare early_shelter_loop.simps [simp del]

text \<open>
  \<^verbatim>\<open>while(duration < Place_List::Shelter_duration_mean &&
  Place_List::Shelter_decay_rate < r) { duration++; r = Random::draw_random(); }\<close>
\<close>

function shelter_decay_loop :: "shelter_params \<Rightarrow> draws \<Rightarrow> int \<Rightarrow> real \<Rightarrow> nat \<Rightarrow> int \<times> nat" where
  "shelter_decay_loop P d duration r cursor =
     (if duration < Shelter_duration_mean P \<and> Shelter_decay_rate P < r
      then shelter_decay_loop P d (duration + 1) (d cursor) (cursor + 1)
      else (duration, cursor))"
  by pat_completeness auto
termination
  by (relation "measure (\<lambda>(P, d, duration, r, cursor).
        nat (Shelter_duration_mean P - duration))") auto

declare shelter_decay_loop.simps [simp del]

text \<open>\<^verbatim>\<open>void Place_List::shelter_household(Household* h)\<close>, with the generator's cursor.\<close>

definition shelter_household ::
  "shelter_params \<Rightarrow> draws \<Rightarrow> household \<Rightarrow> nat \<Rightarrow> household \<times> nat" where
  "shelter_household P d h cursor =
     (let h1 = h\<lparr>shelter := True\<rparr>;
          start_day0 = double_to_int (4999999 / 10000000 + d cursor);
          cursor1 = cursor + 1;
          (start_day1, cursor2) =
             (if Early_shelter_rate P > 0
              then early_shelter_loop P d start_day0 (d cursor1) (cursor1 + 1)
              else (start_day0, cursor1));
          start_day = (if start_day1 < 0 then 0 else start_day1);
          h2 = h1\<lparr>shelter_start_day := Some start_day\<rparr>;
          duration0 = double_to_int (4999999 / 10000000 + d cursor2);
          cursor3 = cursor2 + 1;
          duration1 = (if duration0 < 1 then 1 else duration0);
          (duration, cursor4) =
             (if Shelter_decay_rate P > 0
              then (if d cursor3 < 1 / 2
                    then shelter_decay_loop P d 1 (d (cursor3 + 1)) (cursor3 + 2)
                    else (duration1, cursor3 + 1))
              else (duration1, cursor3))
      in (h2\<lparr>shelter_end_day := Some (start_day + duration)\<rparr>, cursor4))"













section \<open>Evacuation scheduler\<close>

record hazel_params =
  Enable_HAZEL :: bool
  HAZEL_disaster_start_sim_day :: int
  HAZEL_disaster_end_sim_day :: int
  HAZEL_disaster_evac_start_offset :: int
  HAZEL_disaster_evac_end_offset :: int
  HAZEL_disaster_return_start_offset :: int
  HAZEL_disaster_return_end_offset :: int
  HAZEL_disaster_evac_prob_per_day :: real
  HAZEL_disaster_return_prob_per_day :: real

text \<open>
  The inner loop \<^verbatim>\<open>for(int k = return_start_sim_day; k <= return_end_sim_day; ++k)\<close>:
  \<^verbatim>\<open>if(Random::draw_random() < Place_List::HAZEL_disaster_evac_prob_per_day || k ==
  return_end_sim_day) { if(k > j) { tmp_hh->set_shelter_end_day(k); return_date_set = true; } }
  if(return_date_set) break;\<close>. The draw is the left operand of \<^verbatim>\<open>||\<close>, so every round
  draws. The result is the household, \<^verbatim>\<open>return_date_set\<close> and the cursor.
\<close>

function return_day_loop ::
  "hazel_params \<Rightarrow> draws \<Rightarrow> int \<Rightarrow> int \<Rightarrow> int \<Rightarrow> household \<Rightarrow> nat \<Rightarrow> household \<times> bool \<times> nat" where
  "return_day_loop P d j return_end_sim_day k tmp_hh cursor =
     (if k \<le> return_end_sim_day then
        (if (d cursor < HAZEL_disaster_evac_prob_per_day P \<or> k = return_end_sim_day) \<and> k > j
         then (tmp_hh\<lparr>shelter_end_day := Some k\<rparr>, True, cursor + 1)
         else return_day_loop P d j return_end_sim_day (k + 1) tmp_hh (cursor + 1))
      else (tmp_hh, False, cursor))"
  by pat_completeness auto
termination
  by (relation "measure (\<lambda>(P, d, j, return_end_sim_day, k, tmp_hh, cursor).
        nat (return_end_sim_day + 1 - k))") auto

declare return_day_loop.simps [simp del]

text \<open>
  The loop \<^verbatim>\<open>for(int j = evac_start_sim_day; j <= evac_end_sim_day; ++j)\<close> for one household.
  After a successful evacuation draw the return loop runs, then
  \<^verbatim>\<open>if(evac_date_set) { assert(return_date_set); break; }\<close>. The result is the household,
  \<^verbatim>\<open>evac_date_set\<close> and the cursor.
\<close>

function evacuation_day_loop ::
  "hazel_params \<Rightarrow> draws \<Rightarrow> int \<Rightarrow> int \<Rightarrow> int \<Rightarrow> int \<Rightarrow> household \<Rightarrow> nat
     \<Rightarrow> error + (household \<times> bool \<times> nat)" where
  "evacuation_day_loop P d evac_end_sim_day return_start_sim_day return_end_sim_day j tmp_hh cursor =
     (if j \<le> evac_end_sim_day then
        (if d cursor < HAZEL_disaster_evac_prob_per_day P then
           (let (tmp_hh', return_date_set, cursor') =
                  return_day_loop P d j return_end_sim_day return_start_sim_day
                    (tmp_hh\<lparr>shelter_start_day := Some j\<rparr>) (cursor + 1)
            in if return_date_set then Inr (tmp_hh', True, cursor') else Inl AssertionFailed)
         else evacuation_day_loop P d evac_end_sim_day return_start_sim_day return_end_sim_day
                (j + 1) tmp_hh (cursor + 1))
      else Inr (tmp_hh, False, cursor))"
  by pat_completeness auto
termination
  by (relation "measure (\<lambda>(P, d, evac_end_sim_day, return_start_sim_day, return_end_sim_day,
        j, tmp_hh, cursor). nat (evac_end_sim_day + 1 - j))") auto

declare evacuation_day_loop.simps [simp del]

text \<open>The loop \<^verbatim>\<open>for(int i = 0; i < num_households; ++i)\<close> over the household vector.\<close>

fun evacuate_households ::
  "hazel_params \<Rightarrow> draws \<Rightarrow> int \<Rightarrow> int \<Rightarrow> int \<Rightarrow> int \<Rightarrow> household list \<Rightarrow> nat
     \<Rightarrow> error + (household list \<times> nat)" where
  "evacuate_households P d evac_start_sim_day evac_end_sim_day return_start_sim_day
       return_end_sim_day [] cursor = Inr ([], cursor)"
| "evacuate_households P d evac_start_sim_day evac_end_sim_day return_start_sim_day
       return_end_sim_day (tmp_hh # hs) cursor =
     (case evacuation_day_loop P d evac_end_sim_day return_start_sim_day return_end_sim_day
             evac_start_sim_day tmp_hh cursor of
        Inl e \<Rightarrow> Inl e
      | Inr (tmp_hh', _, cursor') \<Rightarrow>
          (case evacuate_households P d evac_start_sim_day evac_end_sim_day
                  return_start_sim_day return_end_sim_day hs cursor' of
             Inl e \<Rightarrow> Inl e
           | Inr (hs', cursor'') \<Rightarrow> Inr (tmp_hh' # hs', cursor'')))"

text \<open>\<^verbatim>\<open>void Place_List::select_households_for_evacuation()\<close>.\<close>

definition select_households_for_evacuation ::
  "hazel_params \<Rightarrow> draws \<Rightarrow> household list \<Rightarrow> nat \<Rightarrow> error + (household list \<times> nat)" where
  "select_households_for_evacuation P d hs cursor =
     (if \<not> Enable_HAZEL P then Inr (hs, cursor)
      else
        (let evac_start_sim_day =
               HAZEL_disaster_start_sim_day P + HAZEL_disaster_evac_start_offset P;
             evac_end_sim_day =
               HAZEL_disaster_end_sim_day P + HAZEL_disaster_evac_end_offset P;
             return_start_sim_day =
               HAZEL_disaster_end_sim_day P + HAZEL_disaster_return_start_offset P;
             return_end_sim_day =
               HAZEL_disaster_end_sim_day P + HAZEL_disaster_return_end_offset P
         in if evac_start_sim_day < 0 \<or> evac_end_sim_day < evac_start_sim_day
            then Inr (hs, cursor)
            else evacuate_households P d evac_start_sim_day evac_end_sim_day
                   return_start_sim_day return_end_sim_day hs cursor))"

text \<open>A household with nothing scheduled, for the examples.\<close>

definition plain_household :: "int \<Rightarrow> int \<Rightarrow> household" where
  "plain_household i income =
     \<lparr>hh_id = i, hh_label = ''H'', enrollees = [], is_group_quarters = False,
      group_quarters_units = 0, household_income = income, shelter = False,
      shelter_start_day = None, shelter_end_day = None\<rparr>"


section \<open>Worker reassignment\<close>










section \<open>Hospital selection\<close>

text \<open>
  The members of \<^verbatim>\<open>Hospital\<close> that the selectors read. The getters that take the simulation
  day are functions of the day; the head counts are natural numbers.
\<close>

record hospital =
  hospital_id :: int
  hospital_label :: string
  healthcare_clinic :: bool
  mobile_healthcare_clinic :: bool
  should_be_open :: "int \<Rightarrow> bool"
  bed_count :: "int \<Rightarrow> int"
  occupied_bed_count :: nat
  daily_patient_capacity :: "int \<Rightarrow> int"
  current_daily_patient_count :: nat
  accepts_insurance :: "nat \<Rightarrow> bool"

text \<open>
  What a selector reads of the person \<^verbatim>\<open>per\<close>: the insurance type, and for every hospital
  \<^verbatim>\<open>distance_between_places(hh, hospital)\<close> from the person's household
  (\<^verbatim>\<open>Geo::xy_distance\<close> is not among the sources).
\<close>

record person =
  insurance_type :: nat
  distance_to :: "hospital \<Rightarrow> real"

record hospital_config =
  Enable_Hospitals :: bool
  Enable_Health_Insurance :: bool
  Hospitalization_radius :: real
  Hospital_overall_panel_size :: int
  places_load_completed :: bool
  pop_load_completed :: bool
  population_size :: nat

text \<open>
  Modelled from the spec: \<^verbatim>\<open>get_hospital(i)\<close> is declared in \<^verbatim>\<open>Place_List.h\<close>, which is
  not among the sources. It is the accessor of the hospital vector by position; outside the
  vector it yields no hospital.
\<close>

definition get_hospital :: "hospital list \<Rightarrow> int \<Rightarrow> hospital option" where
  "get_hospital hs i = (if 0 \<le> i \<and> nat i < length hs then Some (hs ! nat i) else None)"

text \<open>
  The body of the first loop of \<^verbatim>\<open>get_random_open_hospital_matching_criteria\<close> for one
  hospital: \<^verbatim>\<open>cur_prob\<close> and \<^verbatim>\<open>increment\<close>.
\<close>

definition catchment_weight :: "int \<Rightarrow> bool \<Rightarrow> person \<Rightarrow> hospital \<Rightarrow> real \<times> int" where
  "catchment_weight sim_day check_insurance per hospital =
     (let distance = distance_to per hospital;
          overnight_cap = bed_count hospital sim_day
      in if distance > 0 \<and> \<not> healthcare_clinic hospital \<and> \<not> mobile_healthcare_clinic hospital
            \<and> should_be_open hospital sim_day
            \<and> int (occupied_bed_count hospital) < overnight_cap
         then (if check_insurance
               then (if accepts_insurance hospital (insurance_type per)
                     then (real_of_int overnight_cap / distance, 1)
                     else (0, 0))
               else (real_of_int overnight_cap / distance, 1))
         else (0, 0))"


text \<open>
  The static maps of the panel assignment and the flag that guards their set-up.
\<close>

record panel_state =
  is_primary_care_assignment_initialized :: bool
  Hospital_ID_total_assigned_size_map :: "int \<rightharpoonup> int"
  Hospital_ID_current_assigned_size_map :: "int \<rightharpoonup> int"

text \<open>
  The loop of \<^verbatim>\<open>prepare_primary_care_assignment\<close> over the hospitals: both maps get an
  entry per hospital id, by \<^verbatim>\<open>insert\<close>.
\<close>

fun prepare_loop :: "hospital_config \<Rightarrow> hospital list \<Rightarrow> panel_state \<Rightarrow> panel_state" where
  "prepare_loop cfg [] st = st"
| "prepare_loop cfg (hosp # rest) st =
     (let proprtn_of_total_panel =
            (if \<not> mobile_healthcare_clinic hosp
             then real_of_int (daily_patient_capacity hosp 0)
                    / real_of_int (Hospital_overall_panel_size cfg)
             else 0)
      in prepare_loop cfg rest
           (st\<lparr>Hospital_ID_total_assigned_size_map :=
                  map_insert (Hospital_ID_total_assigned_size_map st) (hospital_id hosp)
                    \<lceil>proprtn_of_total_panel * real (population_size cfg)\<rceil>,
               Hospital_ID_current_assigned_size_map :=
                  map_insert (Hospital_ID_current_assigned_size_map st) (hospital_id hosp) 0\<rparr>))"





text \<open>
  The walk \<^verbatim>\<open>while(i < number_hospitals) { cum_prob += hosp_probs[i]; if(rand < cum_prob)
  return hospital i; ++i; }\<close> over the probabilities paired with their hospitals.
\<close>

fun walk :: "real \<Rightarrow> real \<Rightarrow> (real \<times> 'a) list \<Rightarrow> 'a option" where
  "walk rand cum_prob [] = None"
| "walk rand cum_prob ((prob, h) # rest) =
     (if rand < cum_prob + prob then Some h else walk rand (cum_prob + prob) rest)"

text \<open>
  The second half of the three selectors, the same in each: with no possible hospital the
  result is null and nothing is drawn; otherwise the probabilities are normalised when their
  total is positive, one value is drawn, the walk picks a hospital, and the last hospital is
  the default. \<open>ws\<close> holds \<^verbatim>\<open>cur_prob\<close> and \<^verbatim>\<open>increment\<close> of every hospital.
\<close>

definition probability_total :: "(real \<times> int) list \<Rightarrow> real" where
  "probability_total ws = sum_list (map fst ws)"

definition number_possible_hospitals :: "(real \<times> int) list \<Rightarrow> int" where
  "number_possible_hospitals ws = sum_list (map snd ws)"

definition draw_hospital ::
  "draws \<Rightarrow> nat \<Rightarrow> (real \<times> int) list \<Rightarrow> hospital list \<Rightarrow> error + (hospital option \<times> nat)" where
  "draw_hospital d cursor ws hs =
     (if number_possible_hospitals ws > 0 then
        (let hosp_probs =
               (if probability_total ws > 0
                then map (\<lambda>w. fst w / probability_total ws) ws
                else map fst ws);
             rand = d cursor
         in case walk rand 0 (zip hosp_probs hs) of
              Some h \<Rightarrow> Inr (Some h, cursor + 1)
            | None \<Rightarrow>
                (case vector_at hs (int (length hs) - 1) of
                   Inl e \<Rightarrow> Inl e
                 | Inr h \<Rightarrow> Inr (Some h, cursor + 1)))
      else Inr (None, cursor))"

text \<open>
  \<^verbatim>\<open>Hospital* Place_List::get_random_open_hospital_matching_criteria(int sim_day, Person*
  per, bool check_insurance)\<close>. \<open>nearby\<close> is what the regional grid answers: \<open>None\<close> when the
  household has no patch (the call \<^verbatim>\<open>hh_patch->get_row()\<close> then fails), else the vector
  \<^verbatim>\<open>possible_hosp\<close>.
\<close>

definition get_random_open_hospital_matching_criteria ::
  "hospital_config \<Rightarrow> draws \<Rightarrow> hospital list option \<Rightarrow> int \<Rightarrow> person \<Rightarrow> bool \<Rightarrow> nat
     \<Rightarrow> error + (hospital option \<times> nat)" where
  "get_random_open_hospital_matching_criteria cfg d nearby sim_day per check_insurance cursor =
     (if \<not> Enable_Hospitals cfg then Inr (None, cursor)
      else if check_insurance \<and> \<not> Enable_Health_Insurance cfg then Inl AssertionFailed
      else case nearby of
             None \<Rightarrow> Inl NullDereference
           | Some possible_hosp \<Rightarrow>
               if int (length possible_hosp) \<le> 0 then Inl Abort
               else draw_hospital d cursor
                      (map (catchment_weight sim_day check_insurance per) possible_hosp)
                      possible_hosp)"











section \<open>Household to hospital mapping\<close>

record hospital_maps =
  hh_label_hosp_label_map :: "string \<rightharpoonup> string"
  hosp_label_hosp_id_map :: "string \<rightharpoonup> int"
  Household_hospital_map_file_exists :: bool

text \<open>
  \<^verbatim>\<open>Hospital* Place_List::get_hospital_assigned_to_household(Household* hh)\<close>. \<open>person_of\<close>
  gives what the selector reads of a person, \<open>nearby\<close> the answer of the regional grid for
  the household. The result carries the maps (the call may clear
  \<^verbatim>\<open>Household_hospital_map_file_exists\<close>) and the generator's cursor.
\<close>

definition get_hospital_assigned_to_household ::
  "hospital_config \<Rightarrow> draws \<Rightarrow> hospital list \<Rightarrow> (nat \<Rightarrow> person) \<Rightarrow> hospital list option
     \<Rightarrow> hospital_maps \<Rightarrow> household \<Rightarrow> nat \<Rightarrow> error + (hospital option \<times> hospital_maps \<times> nat)" where
  "get_hospital_assigned_to_household cfg d hs person_of nearby maps hh cursor =
     (if \<not> places_load_completed cfg then Inl AssertionFailed
      else case hh_label_hosp_label_map maps (hh_label hh) of
        Some hosp_label \<Rightarrow>
          (case hosp_label_hosp_id_map maps hosp_label of
             Some hosp_id \<Rightarrow> Inr (get_hospital hs hosp_id, maps, cursor)
           | None \<Rightarrow> Inr (None, maps, cursor))
      | None \<Rightarrow>
          (let maps1 = (if Household_hospital_map_file_exists maps
                        then maps\<lparr>Household_hospital_map_file_exists := False\<rparr> else maps)
           in case enrollees hh of
                [] \<Rightarrow> Inl AssertionFailed
              | first # _ \<Rightarrow>
                  (let per = person_of first
                   in case get_random_open_hospital_matching_criteria cfg d nearby 0 per
                             (Enable_Health_Insurance cfg) cursor of
                        Inl e \<Rightarrow> Inl e
                      | Inr (Some hosp, cursor1) \<Rightarrow> Inr (Some hosp, maps1, cursor1)
                      | Inr (None, cursor1) \<Rightarrow>
                          (case get_random_open_hospital_matching_criteria cfg d nearby 0 per
                                  False cursor1 of
                             Inl e \<Rightarrow> Inl e
                           | Inr (Some hosp, cursor2) \<Rightarrow> Inr (Some hosp, maps1, cursor2)
                           | Inr (None, cursor2) \<Rightarrow> Inl AssertionFailed))))"

text \<open>
  The registration of one hospital in \<^verbatim>\<open>read_hospital_file\<close>, after \<^verbatim>\<open>add_place\<close>:
  \<^verbatim>\<open>int hosp_id = this->hospitals.size() - 1; this->hosp_label_hosp_id_map.insert(
  std::pair<string, int>(hosp_label_str, hosp_id));\<close>. \<^verbatim>\<open>add_place\<close> has appended the
  hospital to the vector unless its label was \<open>already_registered\<close>.
\<close>

definition register_hospital ::
  "bool \<Rightarrow> hospital list \<Rightarrow> hospital_maps \<Rightarrow> hospital \<Rightarrow> hospital list \<times> hospital_maps" where
  "register_hospital already_registered hs maps h =
     (let hs' = (if already_registered then hs else hs @ [h]);
          hosp_id = int (length hs') - 1
      in (hs', maps\<lparr>hosp_label_hosp_id_map :=
                      map_insert (hosp_label_hosp_id_map maps) (hospital_label h) hosp_id\<rparr>))"

text \<open>
  The positions of the label map agree with the hospital vector: a registered label is
  mapped to the position of the hospital that has it.
\<close>

definition hospital_ids_agree :: "hospital list \<Rightarrow> hospital_maps \<Rightarrow> bool" where
  "hospital_ids_agree hs maps =
     (\<forall>l i. hosp_label_hosp_id_map maps l = Some i \<longrightarrow>
        0 \<le> i \<and> nat i < length hs \<and> hospital_label (hs ! nat i) = l)"


chapter \<open>Concrete inputs\<close>

text \<open>Small inputs on which the theorems below are instantiated.\<close>

definition demo_requests :: "add_request list" where
  "demo_requests =
     [\<lparr>req_label = ''H1'', req_type = CHR ''H'', req_subtype = CHR ''X'', req_lon = 1,
       req_lat = 2, req_tract = 42\<rparr>,
      \<lparr>req_label = ''W2'', req_type = CHR ''W'', req_subtype = CHR ''X'', req_lon = 3,
       req_lat = 4, req_tract = 0\<rparr>,
      \<lparr>req_label = ''H1'', req_type = CHR ''H'', req_subtype = CHR ''X'', req_lon = 1,
       req_lat = 2, req_tract = 42\<rparr>]"

definition demo_household :: place where
  "demo_household =
     \<lparr>place_id = 0, place_label = ''H1'', place_type = CHR ''H'', place_subtype = CHR ''X'',
      variant = Household, longitude = 1, latitude = 2, census_tract_fips = 42\<rparr>"

definition demo_workplace :: place where
  "demo_workplace =
     \<lparr>place_id = 1, place_label = ''W2'', place_type = CHR ''W'', place_subtype = CHR ''X'',
      variant = Workplace, longitude = 3, latitude = 4, census_tract_fips = 0\<rparr>"

definition demo_registry :: place_list where
  "demo_registry =
     \<lparr>place_label_map = [''H1'' \<mapsto> 0, ''W2'' \<mapsto> 1], places = [demo_household, demo_workplace],
      next_place_id = 2, households = [demo_household], neighborhoods = [], schools = [],
      workplaces = [demo_workplace], hospitals = []\<rparr>"

text \<open>The registry after one household with the sentinel label \<^verbatim>\<open>"-1"\<close> was added.\<close>

definition sentinel_place :: place where
  "sentinel_place =
     \<lparr>place_id = 0, place_label = ''-1'', place_type = CHR ''H'', place_subtype = CHR ''X'',
      variant = Household, longitude = 1, latitude = 2, census_tract_fips = 42\<rparr>"

definition sentinel_registry :: place_list where
  "sentinel_registry =
     \<lparr>place_label_map = [''-1'' \<mapsto> 0], places = [sentinel_place], next_place_id = 1,
      households = [sentinel_place], neighborhoods = [], schools = [], workplaces = [],
      hospitals = []\<rparr>"





text \<open>
  A shelter configuration with a positive early rate and no decay, and the values the
  generator returns for one household: a normal draw of 3.2 for the delay, uniform draws
  of 0.5 and 0.7 for the early loop, a normal draw of 5.3 for the duration.
\<close>

definition shelter_demo :: shelter_params where
  "shelter_demo =
     \<lparr>Shelter_duration_mean = 5, Shelter_duration_std = 1, Shelter_delay_mean = 3,
      Shelter_delay_std = 1, Pct_households_sheltering = 1 / 2,
      High_income_households_sheltering = True, Early_shelter_rate = 3 / 5,
      Shelter_decay_rate = 0\<rparr>"

definition shelter_demo_draws :: draws where
  "shelter_demo_draws n =
     (if n = 0 then 16 / 5 else if n = 1 then 1 / 2 else if n = 2 then 7 / 10 else 53 / 10)"

text \<open>
  An evacuation on day 0 with the return window from day 1 to day 3, an evacuation
  probability of 0.9 per day and a return probability of 0.1 per day.
\<close>

definition evac_demo :: hazel_params where
  "evac_demo = \<lparr>Enable_HAZEL = True, HAZEL_disaster_start_sim_day = 0,
     HAZEL_disaster_end_sim_day = 0, HAZEL_disaster_evac_start_offset = 0,
     HAZEL_disaster_evac_end_offset = 0, HAZEL_disaster_return_start_offset = 1,
     HAZEL_disaster_return_end_offset = 3, HAZEL_disaster_evac_prob_per_day = 9 / 10,
     HAZEL_disaster_return_prob_per_day = 1 / 10\<rparr>"

text \<open>
  Two hospitals registered under the labels M1 and M2, and a loaded mapping that sends the
  household H7 to M2.
\<close>

definition mapping_demo_hospital :: "int \<Rightarrow> string \<Rightarrow> hospital" where
  "mapping_demo_hospital i l =
     \<lparr>hospital_id = i, hospital_label = l, healthcare_clinic = False,
      mobile_healthcare_clinic = False, should_be_open = (\<lambda>day. True),
      bed_count = (\<lambda>day. 10), occupied_bed_count = 0,
      daily_patient_capacity = (\<lambda>day. 20), current_daily_patient_count = 0,
      accepts_insurance = (\<lambda>insurance. True)\<rparr>"

definition mapping_demo_maps :: hospital_maps where
  "mapping_demo_maps =
     \<lparr>hh_label_hosp_label_map = [''H7'' \<mapsto> ''M2''],
      hosp_label_hosp_id_map = [''M1'' \<mapsto> 0, ''M2'' \<mapsto> 1],
      Household_hospital_map_file_exists = True\<rparr>"

definition mapping_demo_config :: hospital_config where
  "mapping_demo_config =
     \<lparr>Enable_Hospitals = True, Enable_Health_Insurance = False, Hospitalization_radius = 0,
      Hospital_overall_panel_size = 40, places_load_completed = True,
      pop_load_completed = True, population_size = 100\<rparr>"












text \<open>
  A group-quarters household of seven occupants and three units, followed in the vector
  by its two empty units: \<open>7 div 3 = 2\<close>, one unit is larger, two are smaller.
\<close>

definition dormitory :: census where
  "dormitory =
     \<lparr>household_vector =
        [(plain_household 10 0)\<lparr>enrollees := [0, 1, 2, 3, 4, 5, 6], is_group_quarters := True,
            group_quarters_units := 3\<rparr>,
         (plain_household 11 0)\<lparr>is_group_quarters := True\<rparr>,
         (plain_household 12 0)\<lparr>is_group_quarters := True\<rparr>],
      person_household = (\<lambda>_. 0)\<rparr>"

chapter \<open>Properties\<close>

section \<open>Properties of the place registry\<close>

lemma add_place_registered_same:
  "place_label_map pl label = Some i \<Longrightarrow>
   add_place pl label ty subtype lon lat tract = Inr (r, pl') \<Longrightarrow> pl' = pl"
  by (auto simp: add_place_def split: sum.splits)

lemma add_place_fresh:
  "place_label_map pl label = None \<Longrightarrow>
   add_place pl label ty subtype lon lat tract = Inr (r, pl') \<Longrightarrow>
   \<exists>v. construct ty = Some v \<and>
     r = Some \<lparr>place_id = next_place_id pl, place_label = label, place_type = ty,
               place_subtype = subtype, variant = v, longitude = lon,
               latitude = lat, census_tract_fips = tract\<rparr> \<and>
     place_label_map pl' = (place_label_map pl)(label \<mapsto> next_place_id pl) \<and>
     places pl' = places pl @ [the r] \<and>
     next_place_id pl' = next_place_id pl + 1"
  by (auto simp: add_place_def get_new_place_id_def Let_def map_insert_def
      split: option.splits if_splits)

lemma registry_ok_empty: "registry_ok empty_place_list"
  by (simp add: registry_ok_def empty_place_list_def)

lemma registry_ok_add_place:
  assumes ok: "registry_ok pl"
    and ap: "add_place pl label ty subtype lon lat tract = Inr (r, pl')"
  shows "registry_ok pl'"
proof (cases "place_label_map pl label")
  case (Some i)
  from add_place_registered_same [OF Some ap] ok show ?thesis by simp
next
  case None
  from add_place_fresh [OF None ap] obtain v where
    r: "r = Some \<lparr>place_id = next_place_id pl, place_label = label, place_type = ty,
               place_subtype = subtype, variant = v, longitude = lon,
               latitude = lat, census_tract_fips = tract\<rparr>"
    and m: "place_label_map pl' = (place_label_map pl)(label \<mapsto> next_place_id pl)"
    and ps: "places pl' = places pl @ [the r]"
    and n: "next_place_id pl' = next_place_id pl + 1"
    by blast
  from ok have n0: "next_place_id pl = int (length (places pl))"
    by (simp add: registry_ok_def)
  from ok have fwd: "\<And>i. i < length (places pl) \<Longrightarrow>
      place_id (places pl ! i) = int i \<and>
      place_label_map pl (place_label (places pl ! i)) = Some (int i)"
    by (simp add: registry_ok_def)
  from ok have bwd: "\<And>l i. place_label_map pl l = Some i \<Longrightarrow>
      0 \<le> i \<and> nat i < length (places pl) \<and> place_label (places pl ! nat i) = l"
    by (simp add: registry_ok_def)
  have lab: "\<And>i. i < length (places pl) \<Longrightarrow> place_label (places pl ! i) \<noteq> label"
    using fwd None by fastforce
  show ?thesis
    unfolding registry_ok_def
  proof (intro conjI allI impI)
    show "next_place_id pl' = int (length (places pl'))"
      using n n0 ps by simp
  next
    fix i assume "i < length (places pl')"
    then consider "i < length (places pl)" | "i = length (places pl)"
      using ps by force
    then show "place_id (places pl' ! i) = int i"
      using fwd r n0 ps by cases (simp_all add: nth_append)
  next
    fix i assume "i < length (places pl')"
    then consider "i < length (places pl)" | "i = length (places pl)"
      using ps by force
    then show "place_label_map pl' (place_label (places pl' ! i)) = Some (int i)"
      using fwd r n0 ps m lab by cases (simp_all add: nth_append)
  next
    fix l i assume a: "place_label_map pl' l = Some i"
    show "0 \<le> i"
      using a m bwd n0 by (cases "l = label") auto
    show "nat i < length (places pl')"
      using a m bwd n0 ps by (cases "l = label") (auto simp: less_Suc_eq)
    show "place_label (places pl' ! nat i) = l"
      using a m bwd n0 ps r by (cases "l = label") (auto simp: nth_append)
  qed
qed

lemma registry_ok_add_places:
  "registry_ok pl \<Longrightarrow> add_places pl rs = Inr pl' \<Longrightarrow> registry_ok pl'"
proof (induction rs arbitrary: pl)
  case Nil
  then show ?case by simp
next
  case (Cons r rs)
  then show ?case
    by (auto simp: add_request_place_def split: sum.splits prod.splits
        dest: registry_ok_add_place)
qed

lemma registry_ok_distinct_ids: "registry_ok pl \<Longrightarrow> distinct (map place_id (places pl))"
  by (auto simp: registry_ok_def distinct_conv_nth)

lemma registry_ok_distinct_labels:
  assumes "registry_ok pl"
  shows "distinct (map place_label (places pl))"
proof -
  have "\<And>i j. i < length (places pl) \<Longrightarrow> j < length (places pl) \<Longrightarrow>
      place_label (places pl ! i) = place_label (places pl ! j) \<Longrightarrow> i = j"
    using assms unfolding registry_ok_def
    by (metis of_nat_eq_iff option.inject)
  then show ?thesis by (auto simp: distinct_conv_nth)
qed

lemma registry_ok_lookup:
  assumes "registry_ok pl" "p \<in> set (places pl)" "place_label p \<noteq> ''-1''"
  shows "get_place_from_label pl (place_label p) = Inr (Some p)"
proof -
  from assms(2) obtain i where i: "i < length (places pl)" "places pl ! i = p"
    by (auto simp: in_set_conv_nth)
  with assms(1) have "place_label_map pl (place_label p) = Some (int i)"
    by (auto simp: registry_ok_def)
  with i assms(3) show ?thesis
    by (simp add: get_place_from_label_def)
qed

lemma get_place_from_label_sentinel: "get_place_from_label pl ''-1'' = Inr None"
  by (simp add: get_place_from_label_def)

lemma registry_ok_registered:
  "registry_ok pl \<Longrightarrow> p \<in> set (places pl) \<Longrightarrow> place_label_map pl (place_label p) \<noteq> None"
  by (auto simp: registry_ok_def in_set_conv_nth)

lemma add_place_again:
  assumes "registry_ok pl" "p \<in> set (places pl)" "place_label p \<noteq> ''-1''"
  shows "add_place pl (place_label p) ty subtype lon lat tract = Inr (Some p, pl)"
  using registry_ok_registered [OF assms(1,2)] registry_ok_lookup [OF assms]
  by (auto simp: add_place_def)

lemma add_place_again_sentinel:
  assumes "registry_ok pl" "p \<in> set (places pl)" "place_label p = ''-1''"
  shows "add_place pl ''-1'' ty subtype lon lat tract = Inr (None, pl)"
  using registry_ok_registered [OF assms(1,2)] assms(3)
  by (auto simp: add_place_def get_place_from_label_def)

lemma add_place_dom:
  "add_place pl label ty subtype lon lat tract = Inr (r, pl') \<Longrightarrow>
   dom (place_label_map pl') = insert label (dom (place_label_map pl))"
proof (cases "place_label_map pl label")
  case None
  assume "add_place pl label ty subtype lon lat tract = Inr (r, pl')"
  from add_place_fresh [OF None this] show ?thesis by auto
next
  case (Some i)
  assume "add_place pl label ty subtype lon lat tract = Inr (r, pl')"
  from add_place_registered_same [OF Some this] Some show ?thesis by auto
qed

lemma add_places_dom:
  "add_places pl rs = Inr pl' \<Longrightarrow>
   dom (place_label_map pl') = dom (place_label_map pl) \<union> req_label ` set rs"
proof (induction rs arbitrary: pl)
  case Nil
  then show ?case by simp
next
  case (Cons r rs)
  from Cons.prems obtain x pl1 where
    step: "add_request_place pl r = Inr (x, pl1)" and rest: "add_places pl1 rs = Inr pl'"
    by (auto split: sum.splits prod.splits)
  from step have "dom (place_label_map pl1) = insert (req_label r) (dom (place_label_map pl))"
    by (simp add: add_request_place_def add_place_dom)
  with Cons.IH [OF rest] show ?case by auto
qed

lemma registry_ok_label_place:
  "registry_ok pl \<Longrightarrow> l \<in> dom (place_label_map pl) \<Longrightarrow>
   \<exists>p \<in> set (places pl). place_label p = l"
  by (auto simp: registry_ok_def) (metis nth_mem)

lemma demo_run: "add_places empty_place_list demo_requests = Inr demo_registry"
  by (simp add: demo_requests_def demo_registry_def demo_household_def demo_workplace_def
      empty_place_list_def add_request_place_def add_place_def get_new_place_id_def
      construct_def map_insert_def get_place_from_label_def Let_def
      is_household_def is_neighborhood_def is_school_def is_workplace_def is_hospital_def)

text \<open>
  C5, as the code has it. After any sequence of \<^verbatim>\<open>add_place\<close> calls on an empty registry
  that ends normally, the ids of the places are pairwise distinct and so are their labels,
  and every label that was passed is the label of a place. For the label of a place other
  than the sentinel \<^verbatim>\<open>"-1"\<close>, \<^verbatim>\<open>get_place_from_label\<close> returns that place, and another
  \<^verbatim>\<open>add_place\<close> with the label returns that place and leaves the registry as it is. For
  a place labelled \<^verbatim>\<open>"-1"\<close> both calls return null; the second \<^verbatim>\<open>add_place\<close> still leaves
  the registry as it is.
\<close>

theorem add_places_unique_and_roundtrip:
  assumes run: "add_places empty_place_list rs = Inr pl"
  shows "distinct (map place_id (places pl)) \<and>
         distinct (map place_label (places pl)) \<and>
         (\<forall>r \<in> set rs. \<exists>p \<in> set (places pl). place_label p = req_label r) \<and>
         (\<forall>p \<in> set (places pl). place_label p \<noteq> ''-1'' \<longrightarrow>
            get_place_from_label pl (place_label p) = Inr (Some p) \<and>
            (\<forall>ty subtype lon lat tract.
               add_place pl (place_label p) ty subtype lon lat tract = Inr (Some p, pl))) \<and>
         (\<forall>p \<in> set (places pl). place_label p = ''-1'' \<longrightarrow>
            get_place_from_label pl (place_label p) = Inr None \<and>
            (\<forall>ty subtype lon lat tract.
               add_place pl (place_label p) ty subtype lon lat tract = Inr (None, pl)))"
proof -
  have ok: "registry_ok pl"
    using registry_ok_add_places [OF registry_ok_empty run] .
  have labels: "\<forall>r \<in> set rs. \<exists>p \<in> set (places pl). place_label p = req_label r"
  proof
    fix r assume "r \<in> set rs"
    then have "req_label r \<in> dom (place_label_map pl)"
      using add_places_dom [OF run] by blast
    then show "\<exists>p \<in> set (places pl). place_label p = req_label r"
      by (rule registry_ok_label_place [OF ok])
  qed
  show ?thesis
    using registry_ok_distinct_ids [OF ok] registry_ok_distinct_labels [OF ok] labels
      registry_ok_lookup [OF ok] add_place_again [OF ok]
      add_place_again_sentinel [OF ok] get_place_from_label_sentinel
    by simp
qed

theorem add_places_unique_and_roundtrip_witness:
  "add_places empty_place_list demo_requests = Inr demo_registry \<and>
   distinct (map place_id (places demo_registry)) \<and>
   distinct (map place_label (places demo_registry)) \<and>
   get_place_from_label demo_registry ''W2'' = Inr (Some demo_workplace) \<and>
   add_place demo_registry ''W2'' (CHR ''W'') (CHR ''X'') 3 4 0 = Inr (Some demo_workplace, demo_registry)"
proof -
  have w: "demo_workplace \<in> set (places demo_registry)" "place_label demo_workplace = ''W2''"
    by (simp_all add: demo_registry_def demo_workplace_def)
  from add_places_unique_and_roundtrip [OF demo_run] w show ?thesis
    using demo_run by fastforce
qed

text \<open>
  C5 as stated fails for the sentinel label: a household added under the label \<^verbatim>\<open>"-1"\<close> is
  registered, yet \<^verbatim>\<open>get_place_from_label\<close> returns null for its label, and so does a second
  \<^verbatim>\<open>add_place\<close> with the label.
\<close>

theorem add_place_sentinel_label_counterexample:
  "add_place empty_place_list ''-1'' (CHR ''H'') (CHR ''X'') 1 2 42 =
     Inr (Some sentinel_place, sentinel_registry) \<and>
   place_label sentinel_place = ''-1'' \<and>
   get_place_from_label sentinel_registry ''-1'' = Inr None \<and>
   add_place sentinel_registry ''-1'' (CHR ''H'') (CHR ''X'') 1 2 42 = Inr (None, sentinel_registry)"
  by (simp add: sentinel_registry_def sentinel_place_def empty_place_list_def add_place_def
      get_new_place_id_def construct_def map_insert_def get_place_from_label_def Let_def
      is_household_def is_neighborhood_def is_school_def is_workplace_def is_hospital_def)

text \<open>
  C10. With a label that is not registered, \<^verbatim>\<open>add_place\<close> returns a place (with that label,
  that type tag and the next id) exactly for the seven type tags H, W, O, N, S, C and M;
  for every other tag no object was constructed and the call fails on the null pointer.
\<close>

theorem add_place_type_tag_precondition:
  "place_label_map pl label = None \<Longrightarrow>
     (if ty \<in> {CHR ''H'', CHR ''W'', CHR ''O'', CHR ''N'', CHR ''S'', CHR ''C'', CHR ''M''}
      then \<exists>p pl'. add_place pl label ty subtype lon lat tract = Inr (Some p, pl') \<and>
             place_label p = label \<and> place_type p = ty \<and> place_id p = next_place_id pl
      else add_place pl label ty subtype lon lat tract = Inl NullDereference)"
  by (auto simp: add_place_def get_new_place_id_def construct_def Let_def)

theorem add_place_type_tag_precondition_witness:
  "place_label_map empty_place_list ''H1'' = None \<and>
   add_place empty_place_list ''H1'' (CHR ''Z'') (CHR ''X'') 1 2 42 = Inl NullDereference \<and>
   (\<exists>p pl'. add_place empty_place_list ''H1'' (CHR ''H'') (CHR ''X'') 1 2 42 = Inr (Some p, pl') \<and>
       place_label p = ''H1'' \<and> place_type p = CHR ''H'' \<and> place_id p = 0)"
proof -
  have fresh: "place_label_map empty_place_list ''H1'' = None"
    by (simp add: empty_place_list_def)
  have n: "next_place_id empty_place_list = 0"
    by (simp add: empty_place_list_def)
  from add_place_type_tag_precondition [OF fresh, of "CHR ''Z''" "CHR ''X''" 1 2 42]
    add_place_type_tag_precondition [OF fresh, of "CHR ''H''" "CHR ''X''" 1 2 42] fresh n
  show ?thesis by simp
qed

section \<open>Properties of the worker reassignment\<close>











section \<open>Properties of the shelter and evacuation schedulers\<close>

lemma shelter_decay_loop_ge:
  "shelter_decay_loop P d duration r cursor = (duration', cursor') \<Longrightarrow> duration \<le> duration'"
proof (induction P d duration r cursor rule: shelter_decay_loop.induct)
  case (1 P d duration r cursor)
  then show ?case
    by (cases "duration < Shelter_duration_mean P \<and> Shelter_decay_rate P < r")
       (auto simp: shelter_decay_loop.simps [of P d duration])
qed

lemma shelter_household_days:
  assumes "shelter_household P d h cursor = (h', cursor')"
  shows "shelter h' \<and>
    (\<exists>s e. shelter_start_day h' = Some s \<and> shelter_end_day h' = Some e \<and> 0 \<le> s \<and> s + 1 \<le> e)"
  using assms unfolding shelter_household_def Let_def
  by (auto split: prod.splits if_splits dest: shelter_decay_loop_ge)

lemma return_day_loop_result:
  "return_day_loop P d j return_end k h cursor = (h', return_date_set, cursor') \<Longrightarrow>
   (if return_date_set then \<exists>k'. j < k' \<and> h' = h\<lparr>shelter_end_day := Some k'\<rparr> else h' = h)"
proof (induction P d j return_end k h cursor rule: return_day_loop.induct)
  case (1 P d j return_end_sim_day k tmp_hh cursor)
  show ?case
  proof (cases "k \<le> return_end_sim_day")
    case False
    with "1.prems" show ?thesis
      by (simp add: return_day_loop.simps [of P d j return_end_sim_day k])
  next
    case True
    show ?thesis
    proof (cases "(d cursor < HAZEL_disaster_evac_prob_per_day P \<or> k = return_end_sim_day) \<and> k > j")
      case hit: True
      with True "1.prems" show ?thesis
        by (auto simp: return_day_loop.simps [of P d j return_end_sim_day k])
    next
      case miss: False
      with True "1.prems" have
        "return_day_loop P d j return_end_sim_day (k + 1) tmp_hh (cursor + 1) =
           (h', return_date_set, cursor')"
        by (simp add: return_day_loop.simps [of P d j return_end_sim_day k])
      from "1.IH" [OF True miss this] show ?thesis .
    qed
  qed
qed

lemma evacuation_day_loop_result:
  "evacuation_day_loop P d evac_end return_start return_end j h cursor = Inr (h', evac_date_set, cursor') \<Longrightarrow>
   (if evac_date_set
    then \<exists>j' k. j \<le> j' \<and> j' < k \<and> h' = h\<lparr>shelter_start_day := Some j', shelter_end_day := Some k\<rparr>
    else h' = h)"
proof (induction P d evac_end return_start return_end j h cursor
    rule: evacuation_day_loop.induct)
  case (1 P d evac_end_sim_day return_start_sim_day return_end_sim_day j tmp_hh cursor)
  show ?case
  proof (cases "j \<le> evac_end_sim_day")
    case False
    with "1.prems" show ?thesis
      by (simp add: evacuation_day_loop.simps [of P d evac_end_sim_day return_start_sim_day return_end_sim_day j])
  next
    case True
    show ?thesis
    proof (cases "d cursor < HAZEL_disaster_evac_prob_per_day P")
      case hit: True
      obtain h2 rs c2 where r: "return_day_loop P d j return_end_sim_day return_start_sim_day
                    (tmp_hh\<lparr>shelter_start_day := Some j\<rparr>) (cursor + 1) = (h2, rs, c2)"
        by (metis prod_cases3)
      with True hit "1.prems" have "rs" "h' = h2" "evac_date_set"
        by (auto simp: evacuation_day_loop.simps [of P d evac_end_sim_day return_start_sim_day return_end_sim_day j]
            split: if_splits)
      with return_day_loop_result [OF r] show ?thesis by auto
    next
      case miss: False
      with True "1.prems" have
        "evacuation_day_loop P d evac_end_sim_day return_start_sim_day return_end_sim_day
                (j + 1) tmp_hh (cursor + 1) = Inr (h', evac_date_set, cursor')"
        by (simp add: evacuation_day_loop.simps [of P d evac_end_sim_day return_start_sim_day return_end_sim_day j])
      from "1.IH" [OF True miss this] have A:
        "if evac_date_set
         then \<exists>j' k. j + 1 \<le> j' \<and> j' < k \<and>
                h' = tmp_hh\<lparr>shelter_start_day := Some j', shelter_end_day := Some k\<rparr>
         else h' = tmp_hh" .
      show ?thesis
      proof (cases evac_date_set)
        case True
        with A obtain j' k where "j + 1 \<le> j'" "j' < k"
          "h' = tmp_hh\<lparr>shelter_start_day := Some j', shelter_end_day := Some k\<rparr>"
          by auto
        then have "j \<le> j' \<and> j' < k \<and>
            h' = tmp_hh\<lparr>shelter_start_day := Some j', shelter_end_day := Some k\<rparr>"
          by simp
        with True show ?thesis by auto
      next
        case False
        with A show ?thesis by simp
      qed
    qed
  qed
qed

lemma evacuate_households_result:
  assumes "0 \<le> evac_start"
  shows "evacuate_households P d evac_start evac_end return_start return_end hs cursor = Inr (hs', cursor') \<Longrightarrow>
   list_all2 (\<lambda>h h'. h' = h \<or>
       (\<exists>j k. 0 \<le> j \<and> j < k \<and> h' = h\<lparr>shelter_start_day := Some j, shelter_end_day := Some k\<rparr>))
     hs hs'"
proof (induction hs arbitrary: cursor hs' cursor')
  case Nil
  then show ?case by simp
next
  case (Cons h hs)
  from Cons.prems obtain h1 b c1 hs1 where
    one: "evacuation_day_loop P d evac_end return_start return_end evac_start h cursor = Inr (h1, b, c1)"
    and rest: "evacuate_households P d evac_start evac_end return_start return_end hs c1 = Inr (hs1, cursor')"
    and hs': "hs' = h1 # hs1"
    by (auto split: sum.splits prod.splits)
  have "h1 = h \<or> (\<exists>j k. 0 \<le> j \<and> j < k \<and> h1 = h\<lparr>shelter_start_day := Some j, shelter_end_day := Some k\<rparr>)"
  proof (cases b)
    case True
    with evacuation_day_loop_result [OF one] obtain j k where
      "evac_start \<le> j" "j < k" "h1 = h\<lparr>shelter_start_day := Some j, shelter_end_day := Some k\<rparr>"
      by auto
    with assms have "0 \<le> j \<and> j < k \<and> h1 = h\<lparr>shelter_start_day := Some j, shelter_end_day := Some k\<rparr>"
      by simp
    then show ?thesis by blast
  next
    case False
    with evacuation_day_loop_result [OF one] show ?thesis by simp
  qed
  with Cons.IH [OF rest] hs' show ?case by simp
qed

lemma shelter_demo_run:
  "shelter_household shelter_demo shelter_demo_draws (plain_household 7 100) 0 =
     ((plain_household 7 100)\<lparr>shelter := True, shelter_start_day := Some 2,
         shelter_end_day := Some 7\<rparr>, 4)"
  by (simp add: shelter_household_def shelter_demo_def shelter_demo_draws_def Let_def
      double_to_int_def early_shelter_loop.simps plain_household_def)

text \<open>
  C7. A household that \<^verbatim>\<open>shelter_household\<close> schedules is marked as sheltering and gets a
  start day that is not negative and an end day at least one day later. After
  \<^verbatim>\<open>select_households_for_evacuation\<close> has returned, every household is either as it was
  or has got an evacuation day that is not negative and a return day strictly after it.
\<close>

theorem scheduled_days_bounds:
  "(\<forall>h' cursor'. shelter_household P d h cursor = (h', cursor') \<longrightarrow>
      shelter h' \<and>
      (\<exists>s e. shelter_start_day h' = Some s \<and> shelter_end_day h' = Some e \<and>
             0 \<le> s \<and> s + 1 \<le> e)) \<and>
   (\<forall>hs' cursor'. select_households_for_evacuation Q d2 hs cursor2 = Inr (hs', cursor') \<longrightarrow>
      list_all2 (\<lambda>h h'. h' = h \<or>
          (\<exists>j k. 0 \<le> j \<and> j < k \<and>
                 h' = h\<lparr>shelter_start_day := Some j, shelter_end_day := Some k\<rparr>))
        hs hs')"
proof (intro conjI allI impI)
  fix h' cursor' assume "shelter_household P d h cursor = (h', cursor')"
  from shelter_household_days [OF this]
  show "shelter h'"
    and "\<exists>s e. shelter_start_day h' = Some s \<and> shelter_end_day h' = Some e \<and> 0 \<le> s \<and> s + 1 \<le> e"
    by simp_all
next
  fix hs' cursor'
  assume run: "select_households_for_evacuation Q d2 hs cursor2 = Inr (hs', cursor')"
  let ?R = "\<lambda>h h'. h' = h \<or>
          (\<exists>j k. 0 \<le> j \<and> j < k \<and>
                 h' = h\<lparr>shelter_start_day := Some j, shelter_end_day := Some k\<rparr>)"
  show "list_all2 ?R hs hs'"
  proof (cases "\<not> Enable_HAZEL Q \<or>
      HAZEL_disaster_start_sim_day Q + HAZEL_disaster_evac_start_offset Q < 0 \<or>
      HAZEL_disaster_end_sim_day Q + HAZEL_disaster_evac_end_offset Q <
        HAZEL_disaster_start_sim_day Q + HAZEL_disaster_evac_start_offset Q")
    case True
    with run have "hs' = hs"
      by (auto simp: select_households_for_evacuation_def Let_def split: if_splits)
    then show ?thesis by (simp add: list_all2_same)
  next
    case False
    then have start: "0 \<le> HAZEL_disaster_start_sim_day Q + HAZEL_disaster_evac_start_offset Q"
      by simp
    from False run have
      "evacuate_households Q d2
         (HAZEL_disaster_start_sim_day Q + HAZEL_disaster_evac_start_offset Q)
         (HAZEL_disaster_end_sim_day Q + HAZEL_disaster_evac_end_offset Q)
         (HAZEL_disaster_end_sim_day Q + HAZEL_disaster_return_start_offset Q)
         (HAZEL_disaster_end_sim_day Q + HAZEL_disaster_return_end_offset Q) hs cursor2 =
       Inr (hs', cursor')"
      by (simp add: select_households_for_evacuation_def Let_def)
    from evacuate_households_result [OF start this] show ?thesis .
  qed
qed

theorem scheduled_days_bounds_witness:
  "shelter_household shelter_demo shelter_demo_draws (plain_household 7 100) 0 =
     ((plain_household 7 100)\<lparr>shelter := True, shelter_start_day := Some 2,
         shelter_end_day := Some 7\<rparr>, 4) \<and>
   select_households_for_evacuation evac_demo (\<lambda>_. 1 / 2) [plain_household 7 100] 0 =
     Inr ([(plain_household 7 100)\<lparr>shelter_start_day := Some 0, shelter_end_day := Some 1\<rparr>], 2) \<and>
   list_all2 (\<lambda>h h'. h' = h \<or>
          (\<exists>j k. 0 \<le> j \<and> j < k \<and>
                 h' = h\<lparr>shelter_start_day := Some j, shelter_end_day := Some k\<rparr>))
     [plain_household 7 100]
     [(plain_household 7 100)\<lparr>shelter_start_day := Some 0, shelter_end_day := Some 1\<rparr>]"
proof -
  have e: "select_households_for_evacuation evac_demo (\<lambda>_. 1 / 2) [plain_household 7 100] 0 =
     Inr ([(plain_household 7 100)\<lparr>shelter_start_day := Some 0, shelter_end_day := Some 1\<rparr>], 2)"
    by (simp add: select_households_for_evacuation_def evac_demo_def plain_household_def
        evacuation_day_loop.simps return_day_loop.simps)
  note t = scheduled_days_bounds [of shelter_demo shelter_demo_draws "plain_household 7 100" 0
      evac_demo "\<lambda>_. 1 / 2" "[plain_household 7 100]" 0]
  from t [THEN conjunct2, rule_format, OF e] shelter_demo_run e show ?thesis
    by (intro conjI)
qed

text \<open>
  C3: the return loop of the code draws against \<^verbatim>\<open>HAZEL_disaster_evac_prob_per_day\<close>, not
  against the return probability. With an evacuation probability of 0.9, a return
  probability of 0.1 and every draw 0.5, the household evacuates on day 0 and the code
  accepts the first return day, 1; a trial with probability 0.1 fails on days 1 and 2 and
  the return day would be the forced last day, 3.
\<close>

theorem evacuation_return_uses_evacuation_probability:
  "select_households_for_evacuation evac_demo (\<lambda>_. 1 / 2) [plain_household 7 100] 0 =
     Inr ([(plain_household 7 100)\<lparr>shelter_start_day := Some 0, shelter_end_day := Some 1\<rparr>], 2)"
  by (simp add: select_households_for_evacuation_def evac_demo_def plain_household_def
      evacuation_day_loop.simps return_day_loop.simps)

section \<open>Properties of the household to hospital mapping\<close>

text \<open>
  Reading the hospital file keeps the positions of the label map in agreement with the
  hospital vector (a label that \<^verbatim>\<open>add_place\<close> found registered has its entry already).
\<close>

lemma hospital_ids_agree_register:
  assumes "hospital_ids_agree hs maps"
    and "already_registered \<Longrightarrow> hospital_label h \<in> dom (hosp_label_hosp_id_map maps)"
    and "register_hospital already_registered hs maps h = (hs', maps')"
  shows "hospital_ids_agree hs' maps'"
proof (cases "hospital_label h \<in> dom (hosp_label_hosp_id_map maps)")
  case True
  then have "maps' = maps" "hs' = hs \<or> hs' = hs @ [h]"
    using assms(3) by (auto simp: register_hospital_def Let_def map_insert_def split: if_splits)
  with assms(1) show ?thesis
    by (fastforce simp: hospital_ids_agree_def nth_append less_Suc_eq)
next
  case False
  with assms(2) have nr: "\<not> already_registered" by blast
  with assms(3) False have hs': "hs' = hs @ [h]"
    and m: "hosp_label_hosp_id_map maps' =
        (hosp_label_hosp_id_map maps)(hospital_label h \<mapsto> int (length hs))"
    by (auto simp: register_hospital_def Let_def map_insert_def split: option.splits)
  show ?thesis
    unfolding hospital_ids_agree_def
  proof (intro allI impI)
    fix l i assume a: "hosp_label_hosp_id_map maps' l = Some i"
    show "0 \<le> i \<and> nat i < length hs' \<and> hospital_label (hs' ! nat i) = l"
    proof (cases "l = hospital_label h")
      case True
      with a m have "i = int (length hs)" by simp
      with True hs' show ?thesis by simp
    next
      case False
      with a m have "hosp_label_hosp_id_map maps l = Some i" by simp
      with assms(1) have "0 \<le> i \<and> nat i < length hs \<and> hospital_label (hs ! nat i) = l"
        by (simp add: hospital_ids_agree_def)
      with hs' show ?thesis by (simp add: nth_append)
    qed
  qed
qed

text \<open>
  C9. When the label of the household is in the loaded mapping and the hospital label it is
  mapped to is registered, \<^verbatim>\<open>get_hospital_assigned_to_household\<close> returns the hospital at
  the registered position and leaves the maps and the generator's cursor as they were:
  nothing is drawn, and the result is the same for every generator, person and answer of
  the regional grid. With the positions as \<^verbatim>\<open>read_hospital_file\<close> registers them, that
  hospital is the hospital of the vector that has the mapped label.
\<close>

theorem mapped_household_keeps_its_hospital:
  assumes "places_load_completed cfg"
    and "hh_label_hosp_label_map maps (hh_label hh) = Some hosp_label"
    and "hosp_label_hosp_id_map maps hosp_label = Some i"
  shows "get_hospital_assigned_to_household cfg d hs person_of nearby maps hh cursor =
           Inr (get_hospital hs i, maps, cursor) \<and>
         (hospital_ids_agree hs maps \<longrightarrow>
            (\<exists>h. get_hospital hs i = Some h \<and> h \<in> set hs \<and> hospital_label h = hosp_label))"
  using assms
  by (auto simp: get_hospital_assigned_to_household_def get_hospital_def hospital_ids_agree_def)

theorem mapped_household_keeps_its_hospital_witness:
  "places_load_completed mapping_demo_config \<and>
   hh_label_hosp_label_map mapping_demo_maps (hh_label ((plain_household 7 100)\<lparr>hh_label := ''H7''\<rparr>))
     = Some ''M2'' \<and>
   hosp_label_hosp_id_map mapping_demo_maps ''M2'' = Some 1 \<and>
   hospital_ids_agree [mapping_demo_hospital 4 ''M1'', mapping_demo_hospital 9 ''M2''] mapping_demo_maps \<and>
   get_hospital_assigned_to_household mapping_demo_config (\<lambda>n. 1 / 2)
       [mapping_demo_hospital 4 ''M1'', mapping_demo_hospital 9 ''M2'']
       (\<lambda>n. \<lparr>insurance_type = 0, distance_to = (\<lambda>h. 1)\<rparr>) None mapping_demo_maps
       ((plain_household 7 100)\<lparr>hh_label := ''H7''\<rparr>) 5 =
     Inr (Some (mapping_demo_hospital 9 ''M2''), mapping_demo_maps, 5)"
proof -
  have a: "places_load_completed mapping_demo_config"
    by (simp add: mapping_demo_config_def)
  have b: "hh_label_hosp_label_map mapping_demo_maps
       (hh_label ((plain_household 7 100)\<lparr>hh_label := ''H7''\<rparr>)) = Some ''M2''"
    by (simp add: mapping_demo_maps_def)
  have c: "hosp_label_hosp_id_map mapping_demo_maps ''M2'' = Some 1"
    by (simp add: mapping_demo_maps_def)
  have g: "hospital_ids_agree [mapping_demo_hospital 4 ''M1'', mapping_demo_hospital 9 ''M2'']
      mapping_demo_maps"
    by (auto simp: hospital_ids_agree_def mapping_demo_maps_def mapping_demo_hospital_def
        split: if_splits)
  have e: "get_hospital [mapping_demo_hospital 4 ''M1'', mapping_demo_hospital 9 ''M2''] 1 =
      Some (mapping_demo_hospital 9 ''M2'')"
    by (simp add: get_hospital_def)
  from mapped_household_keeps_its_hospital [OF a b c, of "\<lambda>n. 1 / 2"
      "[mapping_demo_hospital 4 ''M1'', mapping_demo_hospital 9 ''M2'']"
      "\<lambda>n. \<lparr>insurance_type = 0, distance_to = (\<lambda>h. 1)\<rparr>" None 5] a b c g e
  show ?thesis by simp
qed

section \<open>Properties of the hospital selection\<close>





















lemma prepare_loop_flag:
  "is_primary_care_assignment_initialized (prepare_loop cfg hs st) =
     is_primary_care_assignment_initialized st"
  by (induction hs arbitrary: st) (simp_all add: Let_def)
















section \<open>Properties of the shelter selection\<close>




















section \<open>Properties of the group-quarters partitioner\<close>

text \<open>
  A transfer takes the person out of the household the back-reference names and appends
  the person to the new one.
\<close>

lemma only_enrollees_differ_refl: "only_enrollees_differ h h"
  by (simp add: only_enrollees_differ_def)

lemma only_enrollees_differ_trans:
  "only_enrollees_differ h h1 \<Longrightarrow> only_enrollees_differ h1 h2 \<Longrightarrow> only_enrollees_differ h h2"
  by (simp add: only_enrollees_differ_def)

lemma change_household_effect:
  assumes "person_household c x = q" "q < length (household_vector c)"
    "nh < length (household_vector c)" "nh \<noteq> q"
  shows "length (household_vector (change_household x nh c)) = length (household_vector c)"
    and "enrollees (household_vector (change_household x nh c) ! q) =
           remove1 x (enrollees (household_vector c ! q))"
    and "enrollees (household_vector (change_household x nh c) ! nh) =
           enrollees (household_vector c ! nh) @ [x]"
    and "\<forall>k. k \<noteq> q \<and> k \<noteq> nh \<longrightarrow>
           household_vector (change_household x nh c) ! k = household_vector c ! k"
    and "\<forall>k < length (household_vector c).
           only_enrollees_differ (household_vector c ! k)
             (household_vector (change_household x nh c) ! k)"
    and "person_household (change_household x nh c) = (person_household c)(x := nh)"
  using assms
  by (simp_all add: change_household_def Let_def nth_list_update only_enrollees_differ_def)

text \<open>
  The inner loop moves the next \<open>n\<close> housemates, in order, from the household at \<open>q\<close> to
  the household at \<open>nh\<close>. The household at \<open>q\<close> keeps its first \<open>m\<close> occupants and those
  not yet reached.
\<close>

lemma remove1_next_housemate:
  assumes "distinct xs" "m \<le> j" "j < length xs"
  shows "remove1 (xs ! j) (take m xs @ drop j xs) = take m xs @ drop (Suc j) xs"
proof -
  have "xs ! j \<notin> set (take m xs)"
    using assms by (auto simp: in_set_conv_nth nth_eq_iff_index_eq)
  moreover have "drop j xs = xs ! j # drop (Suc j) xs"
    using assms(3) by (simp add: Cons_nth_drop_Suc)
  ultimately show ?thesis by (simp add: remove1_append)
qed

lemma move_housemates_result:
  assumes "distinct xs" "q < length (household_vector c)" "nh < length (household_vector c)"
    "nh \<noteq> q" "m \<le> j" "j + n \<le> length xs"
    "enrollees (household_vector c ! q) = take m xs @ drop j xs"
    "\<forall>x \<in> set (drop j xs). person_household c x = q"
  shows "\<exists>c'. move_housemates xs n j (Some nh) c = Inr (j + n, c') \<and>
    length (household_vector c') = length (household_vector c) \<and>
    enrollees (household_vector c' ! q) = take m xs @ drop (j + n) xs \<and>
    enrollees (household_vector c' ! nh) =
      enrollees (household_vector c ! nh) @ take n (drop j xs) \<and>
    (\<forall>k. k \<noteq> q \<and> k \<noteq> nh \<longrightarrow> household_vector c' ! k = household_vector c ! k) \<and>
    (\<forall>k < length (household_vector c).
       only_enrollees_differ (household_vector c ! k) (household_vector c' ! k)) \<and>
    (\<forall>x. person_household c' x =
       (if x \<in> set (take n (drop j xs)) then nh else person_household c x))"
  using assms
proof (induction n arbitrary: j c)
  case 0
  then show ?case by (simp add: only_enrollees_differ_refl)
next
  case (Suc n)
  define x where "x = xs ! j"
  define c1 where "c1 = change_household x nh c"
  from Suc.prems have jl: "j < length xs" by simp
  then have va: "vector_at xs (int j) = Inr x" by (simp add: vector_at_def x_def)
  have dj: "drop j xs = x # drop (Suc j) xs"
    using jl by (simp add: Cons_nth_drop_Suc x_def)
  with Suc.prems have px: "person_household c x = q" by simp
  note ch = change_household_effect [OF px Suc.prems(2) Suc.prems(3) Suc.prems(4),
      folded c1_def]
  have e1: "enrollees (household_vector c1 ! q) = take m xs @ drop (Suc j) xs"
    using ch(2) Suc.prems(7) remove1_next_housemate [OF Suc.prems(1) Suc.prems(5) jl]
    by (simp add: x_def)
  have nx: "x \<notin> set (drop (Suc j) xs)"
    using Suc.prems(1) dj by (metis distinct.simps(2) distinct_drop)
  have p1: "\<forall>y \<in> set (drop (Suc j) xs). person_household c1 y = q"
    using Suc.prems(8) nx ch(6) dj by auto
  from Suc.IH [of c1 "Suc j"] Suc.prems ch(1) e1 p1
  obtain c' where r: "move_housemates xs n (Suc j) (Some nh) c1 = Inr (Suc j + n, c')"
    and l: "length (household_vector c') = length (household_vector c1)"
    and eq: "enrollees (household_vector c' ! q) = take m xs @ drop (Suc j + n) xs"
    and en: "enrollees (household_vector c' ! nh) =
      enrollees (household_vector c1 ! nh) @ take n (drop (Suc j) xs)"
    and fr: "\<forall>k. k \<noteq> q \<and> k \<noteq> nh \<longrightarrow> household_vector c' ! k = household_vector c1 ! k"
    and oe: "\<forall>k < length (household_vector c1).
       only_enrollees_differ (household_vector c1 ! k) (household_vector c' ! k)"
    and ph: "\<forall>y. person_household c' y =
       (if y \<in> set (take n (drop (Suc j) xs)) then nh else person_household c1 y)"
    by auto
  have run: "move_housemates xs (Suc n) j (Some nh) c = Inr (j + Suc n, c')"
    using va r by (simp add: c1_def)
  have tk: "take (Suc n) (drop j xs) = x # take n (drop (Suc j) xs)"
    by (simp add: dj)
  have en': "enrollees (household_vector c' ! nh) =
      enrollees (household_vector c ! nh) @ take (Suc n) (drop j xs)"
    using en ch(3) tk by simp
  have fr': "\<forall>k. k \<noteq> q \<and> k \<noteq> nh \<longrightarrow> household_vector c' ! k = household_vector c ! k"
    using fr ch(4) by simp
  have oe': "\<forall>k < length (household_vector c).
       only_enrollees_differ (household_vector c ! k) (household_vector c' ! k)"
    using oe ch(5) ch(1) by (auto intro: only_enrollees_differ_trans)
  have ph': "\<forall>y. person_household c' y =
       (if y \<in> set (take (Suc n) (drop j xs)) then nh else person_household c y)"
    using ph ch(6) tk by auto
  from run l ch(1) eq en' fr' oe' ph' show ?case by auto
qed

text \<open>
  An outer loop fills the \<open>n\<close> households from position \<open>p\<close> on, each with the next
  \<open>per\<close> housemates.
\<close>

lemma distinct_chunk_rest:
  assumes "distinct xs"
  shows "set (take a (drop j xs)) \<inter> set (drop (j + a) xs) = {}"
proof -
  have "distinct (take a (drop j xs) @ drop a (drop j xs))"
    using assms by (simp only: append_take_drop_id distinct_drop)
  then show ?thesis by (simp add: add.commute)
qed

lemma fill_units_result:
  assumes "distinct xs" "q < p" "p + n \<le> length (household_vector c)"
    "m \<le> j" "j + n * per \<le> length xs"
    "enrollees (household_vector c ! q) = take m xs @ drop j xs"
    "\<forall>x \<in> set (drop j xs). person_household c x = q"
    "\<forall>i < n. enrollees (household_vector c ! (p + i)) = []"
  shows "\<exists>c'. fill_units xs n per p j c = Inr (p + n, j + n * per, c') \<and>
    length (household_vector c') = length (household_vector c) \<and>
    enrollees (household_vector c' ! q) = take m xs @ drop (j + n * per) xs \<and>
    (\<forall>i < n. enrollees (household_vector c' ! (p + i)) = take per (drop (j + i * per) xs)) \<and>
    (\<forall>k. k \<noteq> q \<and> \<not> (p \<le> k \<and> k < p + n) \<longrightarrow>
       household_vector c' ! k = household_vector c ! k) \<and>
    (\<forall>k < length (household_vector c).
       only_enrollees_differ (household_vector c ! k) (household_vector c' ! k)) \<and>
    (\<forall>x. x \<notin> set (take (n * per) (drop j xs)) \<longrightarrow>
       person_household c' x = person_household c x) \<and>
    (\<forall>i < n. \<forall>x \<in> set (take per (drop (j + i * per) xs)). person_household c' x = p + i)"
  using assms
proof (induction n arbitrary: p j c)
  case 0
  then show ?case by (simp add: only_enrollees_differ_refl)
next
  case (Suc n)
  from Suc.prems have pl: "p < length (household_vector c)" and ql: "q < length (household_vector c)"
    and pq: "p \<noteq> q" and jp: "j + per \<le> length xs"
    by simp_all
  have nh: "(case get_household (household_vector c) (int p) of
               None \<Rightarrow> None | Some _ \<Rightarrow> Some p) = Some p"
    using pl by (simp add: get_household_def)
  from move_housemates_result [OF Suc.prems(1) ql pl pq Suc.prems(4) jp Suc.prems(6) Suc.prems(7)]
  obtain c1 where mv: "move_housemates xs per j (Some p) c = Inr (j + per, c1)"
    and l1: "length (household_vector c1) = length (household_vector c)"
    and q1: "enrollees (household_vector c1 ! q) = take m xs @ drop (j + per) xs"
    and n1: "enrollees (household_vector c1 ! p) =
      enrollees (household_vector c ! p) @ take per (drop j xs)"
    and f1: "\<forall>k. k \<noteq> q \<and> k \<noteq> p \<longrightarrow> household_vector c1 ! k = household_vector c ! k"
    and o1: "\<forall>k < length (household_vector c).
       only_enrollees_differ (household_vector c ! k) (household_vector c1 ! k)"
    and h1: "\<forall>x. person_household c1 x =
       (if x \<in> set (take per (drop j xs)) then p else person_household c x)"
    by blast
  from Suc.prems(8) have "enrollees (household_vector c ! (p + 0)) = []" by blast
  with n1 have n1': "enrollees (household_vector c1 ! p) = take per (drop j xs)" by simp
  note dis = distinct_chunk_rest [OF Suc.prems(1), of per j]
  have rest: "\<forall>x \<in> set (drop (j + per) xs). person_household c1 x = q"
  proof
    fix x assume x: "x \<in> set (drop (j + per) xs)"
    with dis have "x \<notin> set (take per (drop j xs))" by blast
    moreover from x have "x \<in> set (drop j xs)"
      by (metis add.commute drop_drop in_set_dropD)
    ultimately show "person_household c1 x = q" using h1 Suc.prems(7) by simp
  qed
  have empty: "\<forall>i < n. enrollees (household_vector c1 ! (Suc p + i)) = []"
  proof (intro allI impI)
    fix i assume "i < n"
    then have "Suc i < Suc n" by simp
    with Suc.prems(8) have "enrollees (household_vector c ! (p + Suc i)) = []" by blast
    moreover have "household_vector c1 ! (Suc p + i) = household_vector c ! (Suc p + i)"
      using f1 Suc.prems(2) by simp
    ultimately show "enrollees (household_vector c1 ! (Suc p + i)) = []" by simp
  qed
  have a: "q < Suc p" "Suc p + n \<le> length (household_vector c1)" "m \<le> j + per"
    "j + per + n * per \<le> length xs"
    using Suc.prems l1 by simp_all
  from Suc.IH [OF Suc.prems(1) a q1 rest empty]
  obtain c' where fu: "fill_units xs n per (Suc p) (j + per) c1 =
        Inr (Suc p + n, j + per + n * per, c')"
    and l: "length (household_vector c') = length (household_vector c1)"
    and eq: "enrollees (household_vector c' ! q) = take m xs @ drop (j + per + n * per) xs"
    and en: "\<forall>i < n. enrollees (household_vector c' ! (Suc p + i)) =
        take per (drop (j + per + i * per) xs)"
    and fr: "\<forall>k. k \<noteq> q \<and> \<not> (Suc p \<le> k \<and> k < Suc p + n) \<longrightarrow>
       household_vector c' ! k = household_vector c1 ! k"
    and oe: "\<forall>k < length (household_vector c1).
       only_enrollees_differ (household_vector c1 ! k) (household_vector c' ! k)"
    and hf: "\<forall>x. x \<notin> set (take (n * per) (drop (j + per) xs)) \<longrightarrow>
       person_household c' x = person_household c1 x"
    and hm: "\<forall>i < n. \<forall>x \<in> set (take per (drop (j + per + i * per) xs)).
       person_household c' x = Suc p + i"
    by blast
  have run: "fill_units xs (Suc n) per p j c = Inr (p + Suc n, j + Suc n * per, c')"
    using nh mv fu by (simp add: ac_simps)
  have eq': "enrollees (household_vector c' ! q) = take m xs @ drop (j + Suc n * per) xs"
    using eq by (simp add: ac_simps)
  have en': "enrollees (household_vector c' ! (p + i)) = take per (drop (j + i * per) xs)"
    if "i < Suc n" for i
  proof (cases i)
    case 0
    with fr pq n1' show ?thesis by simp
  next
    case (Suc i')
    with that en show ?thesis by (simp add: ac_simps)
  qed
  have fr': "\<forall>k. k \<noteq> q \<and> \<not> (p \<le> k \<and> k < p + Suc n) \<longrightarrow>
       household_vector c' ! k = household_vector c ! k"
    using fr f1 by auto
  have oe': "\<forall>k < length (household_vector c).
       only_enrollees_differ (household_vector c ! k) (household_vector c' ! k)"
    using oe o1 l1 by (auto intro: only_enrollees_differ_trans)
  have tk: "take (Suc n * per) (drop j xs) =
      take per (drop j xs) @ take (n * per) (drop (j + per) xs)"
    by (simp add: take_add ac_simps)
  have hf': "\<forall>x. x \<notin> set (take (Suc n * per) (drop j xs)) \<longrightarrow>
       person_household c' x = person_household c x"
    using hf h1 unfolding tk by simp
  have hm': "person_household c' x = p + i"
    if "i < Suc n" "x \<in> set (take per (drop (j + i * per) xs))" for i x
  proof (cases i)
    case 0
    with that have x: "x \<in> set (take per (drop j xs))" by simp
    with dis have "x \<notin> set (drop (j + per) xs)" by blast
    then have "x \<notin> set (take (n * per) (drop (j + per) xs))"
      by (meson in_set_takeD)
    with hf h1 x 0 show ?thesis by simp
  next
    case (Suc i')
    with that hm show ?thesis by (simp add: ac_simps)
  qed
  from run l l1 eq' en' fr' oe' hf' hm' show ?case by auto
qed

text \<open>The partition in the spec's words: its length, its concatenation, its sizes.\<close>

lemma length_chunks: "length (chunks n per ys) = n"
  by (induction n arbitrary: ys) simp_all

lemma nth_chunks: "i < n \<Longrightarrow> chunks n per ys ! i = take per (drop (i * per) ys)"
proof (induction n arbitrary: ys i)
  case 0
  then show ?case by simp
next
  case (Suc n)
  then show ?case by (cases i) (simp_all add: ac_simps)
qed

lemma concat_chunks: "concat (chunks n per ys) = take (n * per) ys"
  by (induction n arbitrary: ys) (simp_all add: take_add)

lemma length_in_chunks:
  "n * per \<le> length ys \<Longrightarrow> \<forall>zs \<in> set (chunks n per ys). length zs = per"
proof (induction n arbitrary: ys)
  case 0
  then show ?case by simp
next
  case (Suc n)
  then have "n * per \<le> length (drop per ys)" by simp
  from Suc.IH [OF this] Suc.prems show ?case by simp
qed

lemma unit_counts:
  fixes u sz :: nat
  assumes "0 < u"
  defines "m \<equiv> sz div u"
  defines "l \<equiv> sz - m * u"
  shows "l < u" and "(u - l) * m + l * (m + 1) = sz" and "m * u \<le> sz"
    and "(u - l) * m \<le> sz" and "0 < u - l"
proof -
  have mu: "m * u \<le> sz" unfolding m_def by simp
  have l: "l = sz mod u" unfolding l_def m_def by (simp add: minus_div_mult_eq_mod)
  with assms(1) show lu: "l < u" by simp
  have "sz = m * u + l" using mu by (simp add: l_def)
  also have "m * u = (u - l) * m + l * m"
    using lu by (simp add: algebra_simps flip: add_mult_distrib2)
  finally show e: "(u - l) * m + l * (m + 1) = sz" by simp
  from mu show "m * u \<le> sz" .
  from e show "(u - l) * m \<le> sz" by linarith
  from lu show "0 < u - l" by simp
qed

lemma unit_counts_spec:
  fixes u :: nat and xs :: "'a list"
  assumes "0 < u"
  defines "m \<equiv> length xs div u"
  defines "l \<equiv> length xs - length xs div u * u"
  defines "s \<equiv> u - (length xs - length xs div u * u)"
  shows "l < u" and "s * m + l * (m + 1) = length xs" and "m * u \<le> length xs"
    and "s * m \<le> length xs" and "0 < s" and "m + (s - 1) * m = s * m" and "s - 1 + l = u - 1"
proof -
  note uc = unit_counts [OF assms(1), of "length xs"]
  show "l < u" "s * m + l * (m + 1) = length xs" "m * u \<le> length xs" "s * m \<le> length xs"
    and s: "0 < s"
    using uc unfolding m_def l_def s_def by simp_all
  from s show "m + (s - 1) * m = s * m" by (cases s) simp_all
  from s \<open>l < u\<close> show "s - 1 + l = u - 1" unfolding s_def l_def by simp
qed

lemma spec_partition_unfold:
  "spec_partition u xs =
     take (length xs div u) xs #
     chunks (u - (length xs - length xs div u * u) - 1) (length xs div u)
       (drop (length xs div u) xs) @
     chunks (length xs - length xs div u * u) (length xs div u + 1)
       (drop ((u - (length xs - length xs div u * u)) * (length xs div u)) xs)"
  by (simp add: spec_partition_def Let_def)

lemma length_spec_partition: "0 < u \<Longrightarrow> length (spec_partition u xs) = u"
  using unit_counts_spec(7) [of u xs]
  by (simp add: spec_partition_unfold length_chunks)

lemma concat_spec_partition:
  assumes "0 < u"
  shows "concat (spec_partition u xs) = xs"
proof -
  define m where "m = length xs div u"
  define l where "l = length xs - length xs div u * u"
  define s where "s = u - (length xs - length xs div u * u)"
  note uc = unit_counts_spec [OF assms, of xs, folded m_def l_def s_def]
  have a: "take m xs @ take ((s - 1) * m) (drop m xs) = take (s * m) xs"
    using take_add [of m "(s - 1) * m" xs] unfolding uc(6) by (rule sym)
  have b: "take (s * m) xs @ take (l * (m + 1)) (drop (s * m) xs) = take (length xs) xs"
    using take_add [of "s * m" "l * (m + 1)" xs] unfolding uc(2) by (rule sym)
  have lm: "length xs - m * u = l" and sl: "u - l = s" by (simp_all add: l_def m_def s_def)
  have "concat (spec_partition u xs) =
      (take m xs @ take ((s - 1) * m) (drop m xs)) @ take (l * (m + 1)) (drop (s * m) xs)"
    unfolding spec_partition_unfold m_def [symmetric] lm sl
    by (simp only: concat.simps concat_append concat_chunks append_assoc)
  also have "\<dots> = take (length xs) xs" unfolding a b ..
  finally show ?thesis by simp
qed

lemma sizes_spec_partition:
  assumes "0 < u"
  shows "\<forall>ys \<in> set (spec_partition u xs).
    length ys = length xs div u \<or> length ys = length xs div u + 1"
proof -
  define m where "m = length xs div u"
  define l where "l = length xs - length xs div u * u"
  define s where "s = u - (length xs - length xs div u * u)"
  note uc = unit_counts_spec [OF assms, of xs, folded m_def l_def s_def]
  have lm: "length xs - m * u = l" and sl: "u - l = s" by (simp_all add: l_def m_def s_def)
  have sp: "spec_partition u xs = take m xs # chunks (s - 1) m (drop m xs) @
         chunks l (m + 1) (drop (s * m) xs)"
    unfolding spec_partition_unfold m_def [symmetric] lm sl ..
  have "m \<le> length xs" unfolding m_def by (simp add: div_le_dividend)
  then have a: "length (take m xs) = m" by simp
  have "m + (s - 1) * m \<le> length xs" using uc(4) unfolding uc(6) .
  then have "(s - 1) * m \<le> length xs - m" by linarith
  then have "(s - 1) * m \<le> length (drop m xs)" by (simp only: length_drop)
  note b = length_in_chunks [OF this]
  have "l * (m + 1) \<le> length xs - s * m" using uc(2) by linarith
  then have "l * (m + 1) \<le> length (drop (s * m) xs)" by (simp only: length_drop)
  note c = length_in_chunks [OF this]
  show ?thesis
  proof
    fix ys assume "ys \<in> set (spec_partition u xs)"
    then consider "ys = take m xs" | "ys \<in> set (chunks (s - 1) m (drop m xs))"
      | "ys \<in> set (chunks l (m + 1) (drop (s * m) xs))"
      unfolding sp by (auto simp only: set_simps set_append Un_iff insert_iff)
    then show "length ys = length xs div u \<or> length ys = length xs div u + 1"
      unfolding m_def [symmetric] using a b c by cases blast+
  qed
qed

text \<open>
  The loop body on a group-quarters household with \<open>u > 1\<close> units computes the partition of
  the spec.
\<close>

lemma split_group_quarters_units:
  assumes "group_quarters_units house = int u" "1 < u"
  shows "split_group_quarters c p house =
     (case fill_units (enrollees house)
             (u - (length (enrollees house) - length (enrollees house) div u * u) - 1)
             (length (enrollees house) div u) p (length (enrollees house) div u) c of
        Inl e \<Rightarrow> Inl e
      | Inr (p1, next_person, c1) \<Rightarrow>
          (case fill_units (enrollees house)
                  (length (enrollees house) - length (enrollees house) div u * u)
                  (length (enrollees house) div u + 1) p1 next_person c1 of
             Inl e \<Rightarrow> Inl e
           | Inr (p2, _, c2) \<Rightarrow> Inr (p2, int u, c2)))"
proof -
  define xs where "xs = enrollees house"
  define m where "m = length xs div u"
  define l where "l = length xs - length xs div u * u"
  from assms(2) have u: "0 < u" by simp
  note uc = unit_counts_spec [OF u, of xs, folded m_def l_def]
  have d: "int (length xs) div int u = int m" by (simp add: m_def zdiv_int)
  have l: "int (length xs) - int m * int u = int l"
    using uc(3) by (simp add: l_def m_def of_nat_diff)
  have n1: "nat (int u - int l - 1) = u - l - 1" by simp
  have mu: "int m * int u \<le> int (length xs)"
    using uc(3) by (metis of_nat_le_iff of_nat_mult)
  have n2: "nat (int m + 1) = m + 1" by simp
  have t: "1 + int (u - l - 1) + int l = int u" using uc(1) assms(2) by simp
  have "split_group_quarters c p house =
     (case fill_units xs (u - l - 1) m p m c of
        Inl e \<Rightarrow> Inl e
      | Inr (p1, next_person, c1) \<Rightarrow>
          (case fill_units xs l (m + 1) p1 next_person c1 of
             Inl e \<Rightarrow> Inl e
           | Inr (p2, _, c2) \<Rightarrow> Inr (p2, int u, c2)))"
    using assms uc(1) mu
    by (simp add: split_group_quarters_def Let_def xs_def [symmetric] d l n1 n2 t
        cong: sum.case_cong prod.case_cong)
  then show ?thesis unfolding xs_def m_def l_def .
qed

lemma split_group_quarters_result:
  assumes un: "group_quarters_units (household_vector c ! q) = int u" "1 < u"
    and room: "q + u \<le> length (household_vector c)"
    and dist: "distinct (enrollees (household_vector c ! q))"
    and refs: "\<forall>x \<in> set (enrollees (household_vector c ! q)). person_household c x = q"
    and empty: "\<forall>i. 0 < i \<and> i < u \<longrightarrow> enrollees (household_vector c ! (q + i)) = []"
  shows "\<exists>c'. split_group_quarters c (q + 1) (household_vector c ! q) = Inr (q + u, int u, c') \<and>
    length (household_vector c') = length (household_vector c) \<and>
    (\<forall>i < u. enrollees (household_vector c' ! (q + i)) =
        spec_partition u (enrollees (household_vector c ! q)) ! i) \<and>
    (\<forall>k < length (household_vector c).
       only_enrollees_differ (household_vector c ! k) (household_vector c' ! k)) \<and>
    (\<forall>k. k < q \<or> q + u \<le> k \<longrightarrow> household_vector c' ! k = household_vector c ! k) \<and>
    (\<forall>i < u. \<forall>x \<in> set (spec_partition u (enrollees (household_vector c ! q)) ! i).
       person_household c' x = q + i)"
proof -
  define xs where "xs = enrollees (household_vector c ! q)"
  define m where "m = length xs div u"
  define l where "l = length xs - length xs div u * u"
  define s where "s = u - (length xs - length xs div u * u)"
  from un(2) have u: "0 < u" by simp
  note uc = unit_counts_spec [OF u, of xs, folded m_def l_def s_def]
  have lm: "length xs - m * u = l" and sl: "u - l = s" by (simp_all add: l_def m_def s_def)
  have su: "s + l = u" using uc(1) sl by simp
  have sp: "spec_partition u xs = take m xs # chunks (s - 1) m (drop m xs) @
         chunks l (m + 1) (drop (s * m) xs)"
    unfolding spec_partition_unfold m_def [symmetric] lm sl ..
  have dist': "distinct xs" using dist by (simp add: xs_def)
  have a1: "q < q + 1" by simp
  have a2: "q + 1 + (s - 1) \<le> length (household_vector c)" using room su uc(5) by simp
  have a3: "m + (s - 1) * m \<le> length xs" using uc(4) unfolding uc(6) .
  have a4: "enrollees (household_vector c ! q) = take m xs @ drop m xs"
    by (simp add: xs_def)
  have a5: "\<forall>x \<in> set (drop m xs). person_household c x = q"
    using refs by (auto simp: xs_def dest: in_set_dropD)
  have a6: "\<forall>i < s - 1. enrollees (household_vector c ! (q + 1 + i)) = []"
  proof (intro allI impI)
    fix i assume "i < s - 1"
    then have "0 < 1 + i \<and> 1 + i < u" using su by simp
    with empty have "enrollees (household_vector c ! (q + (1 + i))) = []" by blast
    then show "enrollees (household_vector c ! (q + 1 + i)) = []" by (simp add: ac_simps)
  qed
  from fill_units_result [OF dist' a1 a2 order_refl a3 a4 a5 a6]
  obtain c1 where f1: "fill_units xs (s - 1) m (q + 1) m c =
        Inr (q + 1 + (s - 1), m + (s - 1) * m, c1)"
    and l1: "length (household_vector c1) = length (household_vector c)"
    and q1: "enrollees (household_vector c1 ! q) = take m xs @ drop (m + (s - 1) * m) xs"
    and e1: "\<forall>i < s - 1. enrollees (household_vector c1 ! (q + 1 + i)) =
        take m (drop (m + i * m) xs)"
    and r1: "\<forall>k. k \<noteq> q \<and> \<not> (q + 1 \<le> k \<and> k < q + 1 + (s - 1)) \<longrightarrow>
       household_vector c1 ! k = household_vector c ! k"
    and o1: "\<forall>k < length (household_vector c).
       only_enrollees_differ (household_vector c ! k) (household_vector c1 ! k)"
    and h1: "\<forall>x. x \<notin> set (take ((s - 1) * m) (drop m xs)) \<longrightarrow>
       person_household c1 x = person_household c x"
    and m1: "\<forall>i < s - 1. \<forall>x \<in> set (take m (drop (m + i * m) xs)).
       person_household c1 x = q + 1 + i"
    by blast
  have qs: "q + 1 + (s - 1) = q + s" using uc(5) by simp
  have b1: "q < q + s" using uc(5) by simp
  have b2: "q + s + l \<le> length (household_vector c1)" using room su l1 by simp
  have b3: "m \<le> s * m" using uc(5) by simp
  have b4: "s * m + l * (m + 1) \<le> length xs" using uc(2) by simp
  have b5: "enrollees (household_vector c1 ! q) = take m xs @ drop (s * m) xs"
    using q1 unfolding uc(6) .
  have b6: "\<forall>x \<in> set (drop (s * m) xs). person_household c1 x = q"
  proof
    fix x assume x: "x \<in> set (drop (s * m) xs)"
    then have "x \<in> set (drop (m + (s - 1) * m) xs)" unfolding uc(6) .
    with distinct_chunk_rest [OF dist', of "(s - 1) * m" m]
    have "x \<notin> set (take ((s - 1) * m) (drop m xs))" by blast
    with h1 have "person_household c1 x = person_household c x" by blast
    moreover from x have "x \<in> set xs" by (rule in_set_dropD)
    ultimately show "person_household c1 x = q" using refs by (simp add: xs_def)
  qed
  have b7: "\<forall>i < l. enrollees (household_vector c1 ! (q + s + i)) = []"
  proof (intro allI impI)
    fix i assume "i < l"
    then have "0 < s + i \<and> s + i < u" using su uc(5) by simp
    with empty have "enrollees (household_vector c ! (q + (s + i))) = []" by blast
    moreover have "household_vector c1 ! (q + s + i) = household_vector c ! (q + s + i)"
      using r1 uc(5) unfolding qs by simp
    ultimately show "enrollees (household_vector c1 ! (q + s + i)) = []"
      by (simp add: ac_simps)
  qed
  from fill_units_result [OF dist' b1 b2 b3 b4 b5 b6 b7]
  obtain c2 where f2: "fill_units xs l (m + 1) (q + s) (s * m) c1 =
        Inr (q + s + l, s * m + l * (m + 1), c2)"
    and l2: "length (household_vector c2) = length (household_vector c1)"
    and q2: "enrollees (household_vector c2 ! q) =
        take m xs @ drop (s * m + l * (m + 1)) xs"
    and e2: "\<forall>i < l. enrollees (household_vector c2 ! (q + s + i)) =
        take (m + 1) (drop (s * m + i * (m + 1)) xs)"
    and r2: "\<forall>k. k \<noteq> q \<and> \<not> (q + s \<le> k \<and> k < q + s + l) \<longrightarrow>
       household_vector c2 ! k = household_vector c1 ! k"
    and o2: "\<forall>k < length (household_vector c1).
       only_enrollees_differ (household_vector c1 ! k) (household_vector c2 ! k)"
    and h2: "\<forall>x. x \<notin> set (take (l * (m + 1)) (drop (s * m) xs)) \<longrightarrow>
       person_household c2 x = person_household c1 x"
    and m2: "\<forall>i < l. \<forall>x \<in> set (take (m + 1) (drop (s * m + i * (m + 1)) xs)).
       person_household c2 x = q + s + i"
    by blast
  have f1': "fill_units xs (s - 1) m (q + 1) m c = Inr (q + s, s * m, c1)"
    using f1 unfolding qs uc(6) .
  have f2': "fill_units xs l (m + 1) (q + s) (s * m) c1 = Inr (q + u, s * m + l * (m + 1), c2)"
    using f2 unfolding add.assoc su .
  have run: "split_group_quarters c (q + 1) (household_vector c ! q) = Inr (q + u, int u, c2)"
    unfolding split_group_quarters_units [OF un] xs_def [symmetric] m_def [symmetric] lm sl
    by (simp only: f1' f2' sum.case prod.case)
  have units: "enrollees (household_vector c2 ! (q + i)) = spec_partition u xs ! i"
    if i: "i < u" for i
  proof -
    consider "i = 0" | "0 < i" "i < s" | "s \<le> i" by linarith
    then show ?thesis
    proof cases
      case 1
      with q2 uc(2) sp show ?thesis by simp
    next
      case 2
      then obtain i' where i': "i = 1 + i'" "i' < s - 1" by (cases i) auto
      have "household_vector c2 ! (q + i) = household_vector c1 ! (q + i)"
        using r2 2 by simp
      with e1 i' have "enrollees (household_vector c2 ! (q + i)) = take m (drop (m + i' * m) xs)"
        by (simp add: ac_simps)
      moreover have "spec_partition u xs ! i = take m (drop (m + i' * m) xs)"
        using i' by (simp add: sp nth_append length_chunks nth_chunks ac_simps)
      ultimately show ?thesis by simp
    next
      case 3
      define i' where "i' = i - s"
      with 3 i su have i': "i = s + i'" "i' < l" by simp_all
      from e2 i' have "enrollees (household_vector c2 ! (q + i)) =
          take (m + 1) (drop (s * m + i' * (m + 1)) xs)"
        by (simp add: ac_simps)
      moreover have "(chunks (s - 1) m (drop m xs) @ chunks l (m + 1) (drop (s * m) xs))
            ! (s - 1 + i') = take (m + 1) (drop (s * m + i' * (m + 1)) xs)"
        using i'(2) by (simp add: nth_append length_chunks nth_chunks ac_simps)
      moreover have "spec_partition u xs ! i =
          (chunks (s - 1) m (drop m xs) @ chunks l (m + 1) (drop (s * m) xs)) ! (s - 1 + i')"
        using i'(1) uc(5) unfolding sp by (cases s) simp_all
      ultimately show ?thesis by simp
    qed
  qed
  have o: "\<forall>k < length (household_vector c).
       only_enrollees_differ (household_vector c ! k) (household_vector c2 ! k)"
    using o1 o2 l1 by (auto intro: only_enrollees_differ_trans)
  have r: "\<forall>k. k < q \<or> q + u \<le> k \<longrightarrow> household_vector c2 ! k = household_vector c ! k"
  proof (intro allI impI)
    fix k assume k: "k < q \<or> q + u \<le> k"
    with su uc(5) have "k \<noteq> q \<and> \<not> (q + s \<le> k \<and> k < q + s + l)"
      and "k \<noteq> q \<and> \<not> (q + 1 \<le> k \<and> k < q + s)"
      by auto
    with r1 r2 show "household_vector c2 ! k = household_vector c ! k"
      unfolding qs by simp
  qed
  have h: "person_household c2 x = q + i"
    if i: "i < u" and x: "x \<in> set (spec_partition u xs ! i)" for i x
  proof -
    consider "i = 0" | "0 < i" "i < s" | "s \<le> i" by linarith
    then show ?thesis
    proof cases
      case 1
      with x sp have x: "x \<in> set (take m xs)" by simp
      from set_take_disj_set_drop_if_distinct [OF dist' b3] x
      have "x \<notin> set (drop (s * m) xs)" by blast
      then have "x \<notin> set (take (l * (m + 1)) (drop (s * m) xs))" by (meson in_set_takeD)
      with h2 have "person_household c2 x = person_household c1 x" by blast
      moreover from set_take_disj_set_drop_if_distinct [OF dist' order_refl, of m] x
      have "x \<notin> set (drop m xs)" by blast
      then have "x \<notin> set (take ((s - 1) * m) (drop m xs))" by (meson in_set_takeD)
      with h1 have "person_household c1 x = person_household c x" by blast
      moreover from x have "x \<in> set xs" by (rule in_set_takeD)
      with refs have "person_household c x = q" by (simp add: xs_def)
      ultimately show ?thesis using 1 by simp
    next
      case 2
      then obtain i' where i': "i = 1 + i'" "i' < s - 1" by (cases i) auto
      have "spec_partition u xs ! i = take m (drop (m + i' * m) xs)"
        using i' by (simp add: sp nth_append length_chunks nth_chunks ac_simps)
      with x have x: "x \<in> set (take m (drop (m + i' * m) xs))" by simp
      with m1 i' have c1: "person_household c1 x = q + i" by simp
      from i' have "(i' + 2) * m \<le> s * m" by (intro mult_le_mono1) simp
      then have "m + i' * m + m \<le> s * m" by (simp add: algebra_simps)
      then have "set (drop (s * m) xs) \<subseteq> set (drop (m + i' * m + m) xs)"
        by (rule set_drop_subset_set_drop)
      with distinct_chunk_rest [OF dist', of m "m + i' * m"] x
      have "x \<notin> set (drop (s * m) xs)" by blast
      then have "x \<notin> set (take (l * (m + 1)) (drop (s * m) xs))" by (meson in_set_takeD)
      with h2 c1 show ?thesis by simp
    next
      case 3
      define i' where "i' = i - s"
      with 3 i su have i': "i = s + i'" "i' < l" by simp_all
      have "(chunks (s - 1) m (drop m xs) @ chunks l (m + 1) (drop (s * m) xs))
            ! (s - 1 + i') = take (m + 1) (drop (s * m + i' * (m + 1)) xs)"
        using i'(2) by (simp add: nth_append length_chunks nth_chunks ac_simps)
      moreover have "spec_partition u xs ! i =
          (chunks (s - 1) m (drop m xs) @ chunks l (m + 1) (drop (s * m) xs)) ! (s - 1 + i')"
        using i'(1) uc(5) unfolding sp by (cases s) simp_all
      ultimately have "x \<in> set (take (m + 1) (drop (s * m + i' * (m + 1)) xs))"
        using x by simp
      with m2 i' show ?thesis by simp
    qed
  qed
  from run l1 l2 units o r h show ?thesis unfolding xs_def by auto
qed

lemma chunks_numeral:
  "chunks (numeral k) per xs = take per xs # chunks (pred_numeral k) per (drop per xs)"
  by (simp add: numeral_eq_Suc)

lemma dormitory_partition:
  "spec_partition 3 [0, 1, 2, 3, 4, 5, 6 :: nat] = [[0, 1], [2, 3], [4, 5, 6]]"
  by (simp add: spec_partition_def Let_def chunks_numeral)

text \<open>
  C1: let the household at position \<open>q\<close> be a group-quarters household with \<open>u > 1\<close> units
  whose occupants are distinct and point back to it, followed in the vector by its
  \<open>u - 1\<close> empty units. Then the partitioner returns, the loop continues behind the units,
  and the \<open>u\<close> households from \<open>q\<close> on hold the partition of the spec: their sizes add up
  to the original size, each size is \<open>size div u\<close> or \<open>size div u + 1\<close>, the original
  household keeps its first \<open>size div u\<close> occupants, and the units in order list the
  original occupants in order, each once, with the back-reference of every occupant on the
  unit that lists the occupant. Nothing but the enrollees of these \<open>u\<close> households
  changes.
\<close>

theorem group_quarters_partition:
  assumes pos: "q < num_households"
    and gq: "is_group_quarters (household_vector c ! q)"
    and un: "group_quarters_units (household_vector c ! q) = int u" "1 < u"
    and room: "q + u \<le> length (household_vector c)"
    and dist: "distinct (enrollees (household_vector c ! q))"
    and refs: "\<forall>x \<in> set (enrollees (household_vector c ! q)). person_household c x = q"
    and empty: "\<forall>i. 0 < i \<and> i < u \<longrightarrow> enrollees (household_vector c ! (q + i)) = []"
  shows "\<exists>c'.
    split_group_quarters c (q + 1) (household_vector c ! q) = Inr (q + u, int u, c') \<and>
    setup_group_quarters_loop num_households q units_before c =
      setup_group_quarters_loop num_households (q + u) (units_before + int u) c' \<and>
    length (household_vector c') = length (household_vector c) \<and>
    map enrollees (take u (drop q (household_vector c'))) =
      spec_partition u (enrollees (household_vector c ! q)) \<and>
    sum_list (map (\<lambda>h. length (enrollees h)) (take u (drop q (household_vector c')))) =
      length (enrollees (household_vector c ! q)) \<and>
    (\<forall>h \<in> set (take u (drop q (household_vector c'))).
       length (enrollees h) = length (enrollees (household_vector c ! q)) div u \<or>
       length (enrollees h) = length (enrollees (household_vector c ! q)) div u + 1) \<and>
    enrollees (household_vector c' ! q) =
      take (length (enrollees (household_vector c ! q)) div u)
        (enrollees (household_vector c ! q)) \<and>
    concat (map enrollees (take u (drop q (household_vector c')))) =
      enrollees (household_vector c ! q) \<and>
    (\<forall>i < u. \<forall>x \<in> set (enrollees (household_vector c' ! (q + i))).
       person_household c' x = q + i) \<and>
    (\<forall>k < length (household_vector c).
       only_enrollees_differ (household_vector c ! k) (household_vector c' ! k)) \<and>
    (\<forall>k. k < q \<or> q + u \<le> k \<longrightarrow> household_vector c' ! k = household_vector c ! k)"
proof -
  define xs where "xs = enrollees (household_vector c ! q)"
  from un(2) have u: "0 < u" by simp
  from split_group_quarters_result [OF un room dist refs empty]
  obtain c' where
    run: "split_group_quarters c (q + 1) (household_vector c ! q) = Inr (q + u, int u, c')"
    and len: "length (household_vector c') = length (household_vector c)"
    and units: "\<forall>i < u. enrollees (household_vector c' ! (q + i)) = spec_partition u xs ! i"
    and others: "\<forall>k < length (household_vector c).
       only_enrollees_differ (household_vector c ! k) (household_vector c' ! k)"
    and frame: "\<forall>k. k < q \<or> q + u \<le> k \<longrightarrow>
       household_vector c' ! k = household_vector c ! k"
    and href: "\<forall>i < u. \<forall>x \<in> set (spec_partition u xs ! i). person_household c' x = q + i"
    unfolding xs_def by blast
  let ?us = "take u (drop q (household_vector c'))"
  have lus: "length ?us = u" using room len by simp
  have nus: "?us ! i = household_vector c' ! (q + i)" if "i < u" for i
    using that room len by simp
  have part: "map enrollees ?us = spec_partition u xs"
  proof (rule nth_equalityI)
    show "length (map enrollees ?us) = length (spec_partition u xs)"
      using lus length_spec_partition [OF u, of xs] by simp
  next
    fix i assume "i < length (map enrollees ?us)"
    with lus have i: "i < u" by simp
    with lus have "map enrollees ?us ! i = enrollees (?us ! i)" by simp
    with i nus units show "map enrollees ?us ! i = spec_partition u xs ! i" by simp
  qed
  have get: "get_household (household_vector c) (int q) = Some (household_vector c ! q)"
    using room u by (simp add: get_household_def)
  have loop: "setup_group_quarters_loop num_households q units_before c =
      setup_group_quarters_loop num_households (q + u) (units_before + int u) c'"
    using pos gq get run
    by (simp add: setup_group_quarters_loop.simps [of num_households q units_before c])
  have cc: "concat (map enrollees ?us) = xs"
    unfolding part using u by (rule concat_spec_partition)
  have "sum_list (map (\<lambda>h. length (enrollees h)) ?us) = length (concat (map enrollees ?us))"
    by (simp add: length_concat comp_def)
  with cc have total_size: "sum_list (map (\<lambda>h. length (enrollees h)) ?us) = length xs"
    by simp
  have sizes: "\<forall>h \<in> set ?us. length (enrollees h) = length xs div u \<or>
       length (enrollees h) = length xs div u + 1"
  proof
    fix h assume "h \<in> set ?us"
    then have "enrollees h \<in> set (map enrollees ?us)" by simp
    then have "enrollees h \<in> set (spec_partition u xs)" unfolding part .
    with sizes_spec_partition [OF u, of xs]
    show "length (enrollees h) = length xs div u \<or> length (enrollees h) = length xs div u + 1"
      by blast
  qed
  from units u have "enrollees (household_vector c' ! (q + 0)) = spec_partition u xs ! 0"
    by blast
  then have first: "enrollees (household_vector c' ! q) = take (length xs div u) xs"
    by (simp add: spec_partition_unfold)
  have href': "\<forall>i < u. \<forall>x \<in> set (enrollees (household_vector c' ! (q + i))).
       person_household c' x = q + i"
    using href units by simp
  from run loop len part total_size sizes first cc href' others frame
  show ?thesis unfolding xs_def by blast
qed

theorem group_quarters_partition_witness:
  "\<exists>c'. split_group_quarters dormitory 1 (household_vector dormitory ! 0) = Inr (3, 3, c') \<and>
     setup_group_quarters dormitory = Inr (3, c') \<and>
     map enrollees (household_vector c') = [[0, 1], [2, 3], [4, 5, 6]]"
proof -
  have a: "(0 :: nat) < 3" "is_group_quarters (household_vector dormitory ! 0)"
    "group_quarters_units (household_vector dormitory ! 0) = int 3" "(1 :: nat) < 3"
    "0 + 3 \<le> length (household_vector dormitory)"
    "distinct (enrollees (household_vector dormitory ! 0))"
    "\<forall>x \<in> set (enrollees (household_vector dormitory ! 0)). person_household dormitory x = 0"
    by (simp_all add: dormitory_def plain_household_def)
  have b: "\<forall>i. 0 < i \<and> i < 3 \<longrightarrow> enrollees (household_vector dormitory ! (0 + i)) = []"
    by (auto simp: dormitory_def plain_household_def less_Suc_eq numeral_3_eq_3)
  from group_quarters_partition [OF a b, of 0]
  obtain c' where
    run: "split_group_quarters dormitory (0 + 1) (household_vector dormitory ! 0) =
        Inr (0 + 3, int 3, c')"
    and loop: "setup_group_quarters_loop 3 0 0 dormitory =
        setup_group_quarters_loop 3 (0 + 3) (0 + int 3) c'"
    and len: "length (household_vector c') = length (household_vector dormitory)"
    and part: "map enrollees (take 3 (drop 0 (household_vector c'))) =
        spec_partition 3 (enrollees (household_vector dormitory ! 0))"
    by blast
  from len have l: "length (household_vector c') = 3" by (simp add: dormitory_def)
  have e: "enrollees (household_vector dormitory ! 0) = [0, 1, 2, 3, 4, 5, 6]"
    by (simp add: dormitory_def)
  from part l have p: "map enrollees (household_vector c') = [[0, 1], [2, 3], [4, 5, 6]]"
    unfolding e dormitory_partition by simp
  have "length (household_vector dormitory) = 3" by (simp add: dormitory_def)
  then have "setup_group_quarters dormitory = setup_group_quarters_loop 3 0 0 dormitory"
    unfolding setup_group_quarters_def by (rule arg_cong)
  also have "\<dots> = Inr (3, c')"
    unfolding loop by (simp add: setup_group_quarters_loop.simps [of 3 3])
  finally have s: "setup_group_quarters dormitory = Inr (3, c')" .
  from run s p show ?thesis by auto
qed

end
